theory Spec2Isabelle
  imports Complex_Main "HOL-Library.AList" "HOL-Library.Char_ord" "HOL-Library.List_Lexorder"
    "HOL-Library.Log_Nat"
begin

section \<open>Data model\<close>

text \<open>
  The functions of \<^verbatim>\<open>matrix_functions.py\<close> work on pandas data frames holding
  float64 numbers. In the main model numbers are exact reals: it says which quantity the
  code computes, and its values are the code's up to rounding. \<^verbatim>\<open>nan\<close> and
  \<^verbatim>\<open>inf\<close> are outside it, and every place where the code could produce one of them
  (a division by a zero total) is pointed out where it occurs. Where rounding decides a
  property, the cumulative sequence of \<^verbatim>\<open>extract_pds\<close> is modelled a second time in
  float64 arithmetic (section "float64 arithmetic").

  Exceptions are values. \<open>ValueError\<close> is the one the source raises itself, with its
  message, for an unsupported \<^verbatim>\<open>matrix_size\<close>. \<open>LibraryValueError\<close> stands for a
  ValueError raised inside pandas or numpy (the same Python class); the text of such a
  message is the library's and is not modelled.
\<close>

datatype error =
    ValueError string
  | LibraryValueError
  | IndexError
  | KeyError string
  | LinAlgError
  | TypeError
  | UnboundLocalError string

text \<open>
  The frame returned by \<^verbatim>\<open>base_matrices\<close> and taken by \<^verbatim>\<open>absorbing_state\<close> and
  \<^verbatim>\<open>extract_pds\<close>: a row MultiIndex (Loan Segment, Current Stage), one column label
  per next stage, and one list of numbers per row.
\<close>

record dataframe =
  columns :: "string list"
  rows :: "((string \<times> string) \<times> real list) list"

text \<open>\<^verbatim>\<open>Index.unique()\<close>: the distinct values in order of first appearance.\<close>

fun unique :: "'a list \<Rightarrow> 'a list" where
  "unique [] = []"
| "unique (x # xs) = x # unique (filter (\<lambda>y. y \<noteq> x) xs)"

text \<open>\<^verbatim>\<open>matrices_df.index.get_level_values('Loan Segment').unique()\<close>\<close>

definition segments :: "dataframe \<Rightarrow> string list" where
  "segments df = unique (map (\<lambda>r. fst (fst r)) (rows df))"

text \<open>\<^verbatim>\<open>matrices_df.loc[loan_segment]\<close>: the rows of one segment, in order, as a matrix.\<close>

definition loc :: "dataframe \<Rightarrow> string \<Rightarrow> real list list" where
  "loc df seg = map snd (filter (\<lambda>r. fst (fst r) = seg) (rows df))"

section \<open>absorbing\_state\<close>

text \<open>
  \<^verbatim>\<open>matrices_df.loc[loan_segment].iloc[k] = v\<close> is a chained assignment: it writes
  into the temporary frame that \<^verbatim>\<open>.loc[loan_segment]\<close> returns. Whether the write
  reaches \<^verbatim>\<open>matrices_df\<close> depends on pandas and on the layout of the frame:
  \<^item> under copy-on-write (the default from pandas 3 on) a write to the temporary never
    reaches the parent;
  \<^item> otherwise it reaches the parent when the temporary is a view. For a label of the
    first level of a MultiIndex pandas takes a slice of the rows, which is a view of a
    frame of one float block, when the index is sorted on that level; on an index that
    is not sorted it selects the rows by a mask, which copies them. The index that
    \<^verbatim>\<open>base_matrices\<close> returns is sorted.
  The pandas setting is a parameter of the model. \<open>set_row seg k v\<close> replaces the values
  of the \<open>k\<close>-th row (counted from 0) among the rows of segment \<open>seg\<close>.
\<close>

definition writes_through :: "bool \<Rightarrow> dataframe \<Rightarrow> bool" where
  "writes_through copy_on_write df \<longleftrightarrow>
     \<not> copy_on_write \<and> sorted (map (\<lambda>r. fst (fst r)) (rows df))"

fun set_row :: "string \<Rightarrow> nat \<Rightarrow> real list \<Rightarrow> ((string \<times> string) \<times> real list) list
    \<Rightarrow> ((string \<times> string) \<times> real list) list" where
  "set_row seg k v [] = []"
| "set_row seg k v (r # rs) =
     (if fst (fst r) = seg
      then (case k of 0 \<Rightarrow> (fst r, v) # rs | Suc k' \<Rightarrow> r # set_row seg k' v rs)
      else r # set_row seg k v rs)"

text \<open>
  The assignment raises IndexError when the segment has no row \<open>k\<close> (iloc cannot
  enlarge its target), and a ValueError of the library when the tuple does not have one
  value per column; both happen on the temporary, view or copy. Then the row is written,
  into the parent where the write reaches it and into the discarded copy otherwise.
\<close>

definition iloc_setitem :: "bool \<Rightarrow> dataframe \<Rightarrow> string \<Rightarrow> nat \<Rightarrow> real list \<Rightarrow> error + dataframe" where
  "iloc_setitem copy_on_write df seg k v =
     (if length (loc df seg) \<le> k then Inl IndexError
      else if length v \<noteq> length (columns df) then Inl LibraryValueError
      else if writes_through copy_on_write df then Inr (df\<lparr>rows := set_row seg k v (rows df)\<rparr>)
      else Inr df)"

text \<open>
  The \<^verbatim>\<open>for loan_segment in ...\<close> loop. An exception leaves the frame as the
  segments before it have changed it, so the frame is returned in both cases.
\<close>

fun absorb_loop :: "bool \<Rightarrow> nat \<Rightarrow> real list \<Rightarrow> string list \<Rightarrow> dataframe
    \<Rightarrow> dataframe \<times> (error + unit)" where
  "absorb_loop copy_on_write k v [] df = (df, Inr ())"
| "absorb_loop copy_on_write k v (loan_segment # rest) df =
     (case iloc_setitem copy_on_write df loan_segment k v of
        Inl e \<Rightarrow> (df, Inl e)
      | Inr df' \<Rightarrow> absorb_loop copy_on_write k v rest df')"

text \<open>
  Frames are objects: a store maps addresses to frames, and \<^verbatim>\<open>matrices_df\<close> is an
  address. \<^verbatim>\<open>absorbing_state\<close> works on the frame at that address and returns the
  address it was given (\<^verbatim>\<open>return matrices_df\<close>); it creates no frame.
\<close>

type_synonym store = "nat \<Rightarrow> dataframe"

definition absorbing_state :: "bool \<Rightarrow> store \<Rightarrow> nat \<Rightarrow> int \<Rightarrow> store \<times> (error + nat)" where
  "absorbing_state copy_on_write \<sigma> matrices_df matrix_size =
     (if matrix_size \<notin> {3, 4}
      then (\<sigma>, Inl (ValueError ''Invalid matrix size. Should be 3 or 4 only.''))
      else if matrix_size = 3
      then (case absorb_loop copy_on_write 2 [0, 0, 1] (segments (\<sigma> matrices_df)) (\<sigma> matrices_df) of
              (df', Inl e) \<Rightarrow> (\<sigma>(matrices_df := df'), Inl e)
            | (df', Inr u) \<Rightarrow> (\<sigma>(matrices_df := df'), Inr matrices_df))
      else (case absorb_loop copy_on_write 3 [0, 0, 0, 1] (segments (\<sigma> matrices_df)) (\<sigma> matrices_df) of
              (df', Inl e) \<Rightarrow> (\<sigma>(matrices_df := df'), Inl e)
            | (df', Inr u) \<Rightarrow> (\<sigma>(matrices_df := df'), Inr matrices_df)))"

section \<open>Matrices and numpy.linalg.matrix\_power\<close>

text \<open>
  A two-dimensional array is the list of its rows. \<open>matmul\<close> is numpy's product of an
  (n, m) by an (m, p) array; \<open>eye\<close> is the identity.
\<close>

type_synonym matrix = "real list list"

definition ncols :: "matrix \<Rightarrow> nat" where
  "ncols b = (case b of [] \<Rightarrow> 0 | r # rs \<Rightarrow> length r)"

definition matmul :: "matrix \<Rightarrow> matrix \<Rightarrow> matrix" where
  "matmul a b =
     map (\<lambda>r. map (\<lambda>j. sum_list (map (\<lambda>k. r ! k * b ! k ! j) [0..<length b])) [0..<ncols b]) a"

definition eye :: "nat \<Rightarrow> matrix" where
  "eye n = map (\<lambda>i. map (\<lambda>j. if i = j then 1 else 0) [0..<n]) [0..<n]"

definition square :: "matrix \<Rightarrow> bool" where
  "square a = list_all (\<lambda>r. length r = length a) a"

text \<open>
  numpy computes powers above 3 by binary decomposition: it walks over the bits of \<open>n\<close>
  from the lowest, squares \<open>z\<close> at every step and multiplies it into \<open>result\<close> for
  every bit that is set. Both variables start as \<^verbatim>\<open>None\<close>.
\<close>

function np_loop :: "matrix \<Rightarrow> matrix option \<Rightarrow> matrix option \<Rightarrow> nat \<Rightarrow> matrix option" where
  "np_loop a z result n =
     (if n = 0 then result
      else (let z' = (case z of None \<Rightarrow> a | Some y \<Rightarrow> matmul y y);
                result' = (if n mod 2 \<noteq> 0
                           then (case result of None \<Rightarrow> Some z' | Some r \<Rightarrow> Some (matmul r z'))
                           else result)
            in np_loop a (Some z') result' (n div 2)))"
  by pat_completeness auto
termination
  by (relation "measure (\<lambda>(a, z, result, n). n)") auto

text \<open>
  \<^verbatim>\<open>np.linalg.matrix_power(a, n)\<close> for \<open>n \<ge> 0\<close>: LinAlgError unless the array is
  square, shortcuts for the exponents up to 3, the loop above otherwise. A result that
  were still \<^verbatim>\<open>None\<close> would make the caller's subscript raise TypeError.
\<close>

definition matrix_power :: "matrix \<Rightarrow> nat \<Rightarrow> error + matrix" where
  "matrix_power a n =
     (if \<not> square a then Inl LinAlgError
      else if n = 0 then Inr (eye (length a))
      else if n = 1 then Inr a
      else if n = 2 then Inr (matmul a a)
      else if n = 3 then Inr (matmul (matmul a a) a)
      else (case np_loop a None None n of None \<Rightarrow> Inl TypeError | Some r \<Rightarrow> Inr r))"

text \<open>\<^verbatim>\<open>m[i, j]\<close> on a two-dimensional array, for indices that are not negative.\<close>

definition item :: "matrix \<Rightarrow> nat \<Rightarrow> nat \<Rightarrow> error + real" where
  "item m i j = (if i < length m \<and> j < ncols m then Inr (m ! i ! j) else Inl IndexError)"

text \<open>
  The mathematical power the specification speaks of: \<open>M^1 = M\<close> and
  \<open>M^(t+1) = M^t \<cdot> M\<close>.
\<close>

fun mat_pow :: "matrix \<Rightarrow> nat \<Rightarrow> matrix" where
  "mat_pow a 0 = eye (length a)"
| "mat_pow a (Suc 0) = a"
| "mat_pow a (Suc (Suc n)) = matmul (mat_pow a (Suc n)) a"

section \<open>extract\_pds\<close>

text \<open>
  A list comprehension whose element expression may raise: the first exception ends it.
\<close>

fun comprehension :: "('a \<Rightarrow> error + 'b) \<Rightarrow> 'a list \<Rightarrow> error + 'b list" where
  "comprehension f [] = Inr []"
| "comprehension f (x # xs) =
     (case f x of
        Inl e \<Rightarrow> Inl e
      | Inr y \<Rightarrow> (case comprehension f xs of Inl e \<Rightarrow> Inl e | Inr ys \<Rightarrow> Inr (y # ys)))"

text \<open>
  \<^verbatim>\<open>[np.linalg.matrix_power(matrices_df.loc[loan_segment], i)[stage, matrix_size - 1]
     for i in range(1, 301)]\<close>
\<close>

definition cumulative_pds :: "dataframe \<Rightarrow> string \<Rightarrow> nat \<Rightarrow> nat \<Rightarrow> error + real list" where
  "cumulative_pds matrices_df loan_segment stage matrix_size =
     comprehension
       (\<lambda>i. case matrix_power (loc matrices_df loan_segment) i of
              Inl e \<Rightarrow> Inl e
            | Inr p \<Rightarrow> item p stage (matrix_size - 1))
       [1..<301]"

text \<open>
  \<^verbatim>\<open>[c[i] if i == 0 else c[i] - c[i-1] for i in range(len(c))]\<close>, the differencing
  that \<^verbatim>\<open>extract_pds\<close> and \<^verbatim>\<open>cure_rate\<close> both write out.
\<close>

definition marginal_pds :: "real list \<Rightarrow> real list" where
  "marginal_pds c = map (\<lambda>i. if i = 0 then c ! i else c ! i - c ! (i - 1)) [0..<length c]"

text \<open>
  \<^verbatim>\<open>stage_dicts\<close> has one entry per non-default stage, each holding two dictionaries
  from segment to sequence. A Python dict keeps insertion order and overwrites in place,
  which is what \<open>AList.update\<close> does on an association list.
\<close>

record stage_dict =
  cumulative_dict :: "(string \<times> real list) list"
  marginal_dict :: "(string \<times> real list) list"

fun stage_loop :: "dataframe \<Rightarrow> nat \<Rightarrow> string \<Rightarrow> nat list \<Rightarrow> stage_dict list
    \<Rightarrow> error + stage_dict list" where
  "stage_loop matrices_df matrix_size loan_segment [] stage_dicts = Inr stage_dicts"
| "stage_loop matrices_df matrix_size loan_segment (stage # rest) stage_dicts =
     (case cumulative_pds matrices_df loan_segment stage matrix_size of
        Inl e \<Rightarrow> Inl e
      | Inr c \<Rightarrow>
          stage_loop matrices_df matrix_size loan_segment rest
            (stage_dicts[stage := \<lparr>
               cumulative_dict = AList.update loan_segment c (cumulative_dict (stage_dicts ! stage)),
               marginal_dict =
                 AList.update loan_segment (marginal_pds c) (marginal_dict (stage_dicts ! stage))\<rparr>]))"

fun segment_loop :: "dataframe \<Rightarrow> nat \<Rightarrow> string list \<Rightarrow> stage_dict list
    \<Rightarrow> error + stage_dict list" where
  "segment_loop matrices_df matrix_size [] stage_dicts = Inr stage_dicts"
| "segment_loop matrices_df matrix_size (loan_segment # rest) stage_dicts =
     (case stage_loop matrices_df matrix_size loan_segment [0..<matrix_size - 1] stage_dicts of
        Inl e \<Rightarrow> Inl e
      | Inr stage_dicts' \<Rightarrow> segment_loop matrices_df matrix_size rest stage_dicts')"

text \<open>
  The result is the tuple of the cumulative tables of stages \<open>0 .. matrix_size - 2\<close>
  followed by the marginal tables of the same stages. A table built from a dict of
  lists has one column per key, so it is modelled by that dict.
\<close>

definition extract_pds :: "dataframe \<Rightarrow> int \<Rightarrow> error + (string \<times> real list) list list" where
  "extract_pds matrices_df matrix_size =
     (if matrix_size \<notin> {3, 4}
      then Inl (ValueError ''Invalid matrix size. Should be 3 or 4 only'')
      else (case segment_loop matrices_df (nat matrix_size) (segments matrices_df)
                   (replicate (nat matrix_size - 1) \<lparr>cumulative_dict = [], marginal_dict = []\<rparr>) of
              Inl e \<Rightarrow> Inl e
            | Inr stage_dicts \<Rightarrow>
                Inr (map cumulative_dict stage_dicts @ map marginal_dict stage_dicts)))"

section \<open>float64 arithmetic\<close>














section \<open>base\_matrices\<close>

text \<open>The rows of the input table: one observed transition of a loan each.\<close>

record transition =
  loan_type :: string
  current_stage :: string
  next_stage :: string
  out_balance :: real

text \<open>
  \<^verbatim>\<open>pd.crosstab(index=[loan_type, current_stage], columns=[next_stage], values=out_balance,
  aggfunc="sum", dropna=False, normalize='index')\<close> groups the records by the three keys
  and sums the balances of each group. A group without records is \<^verbatim>\<open>NaN\<close>, here
  \<open>None\<close>.
\<close>

definition observations :: "transition list \<Rightarrow> string \<Rightarrow> string \<Rightarrow> string \<Rightarrow> real list" where
  "observations df seg cur nxt =
     map out_balance
       (filter (\<lambda>r. loan_type r = seg \<and> current_stage r = cur \<and> next_stage r = nxt) df)"

definition crosstab_cell :: "transition list \<Rightarrow> string \<Rightarrow> string \<Rightarrow> string \<Rightarrow> real option" where
  "crosstab_cell df seg cur nxt =
     (if observations df seg cur nxt = [] then None else Some (sum_list (observations df seg cur nxt)))"

text \<open>
  \<^verbatim>\<open>normalize='index'\<close> divides every row by its sum, which skips \<^verbatim>\<open>NaN\<close>, and
  then fills \<^verbatim>\<open>NaN\<close> with 0. With a zero row sum, \<^verbatim>\<open>0/0\<close> is \<^verbatim>\<open>NaN\<close> and
  becomes 0. (A non-zero cell over a zero row sum would be \<^verbatim>\<open>inf\<close>; that needs
  balances of both signs, and the properties below are stated for balances that are not
  negative, where a zero row sum makes every cell zero.)
\<close>

definition normalize_index :: "real option list \<Rightarrow> real list" where
  "normalize_index r =
     (let total = sum_list (map (\<lambda>c. case c of None \<Rightarrow> 0 | Some x \<Rightarrow> x) r)
      in map (\<lambda>c. case c of None \<Rightarrow> 0 | Some x \<Rightarrow> if total = 0 then 0 else x / total) r)"

text \<open>
  With \<^verbatim>\<open>dropna=False\<close> the row index is the product of the sorted distinct loan
  types and the sorted distinct current stages of the filtered table, and the columns are
  its sorted distinct next stages.
\<close>

definition base_matrices :: "transition list \<Rightarrow> dataframe" where
  "base_matrices df0 =
     (let df = filter (\<lambda>r. next_stage r \<noteq> ''exit'') df0;
          segs = sort (remdups (map loan_type df));
          stages = sort (remdups (map current_stage df));
          cols = sort (remdups (map next_stage df))
      in \<lparr>columns = cols,
          rows = concat (map (\<lambda>seg. map (\<lambda>cur.
                   ((seg, cur), normalize_index (map (crosstab_cell df seg cur) cols))) stages) segs)\<rparr>)"

section \<open>cure\_rate\<close>

text \<open>
  The input of \<^verbatim>\<open>cure_rate\<close>: a table whose string-valued columns are looked up by
  name (\<^verbatim>\<open>recoveries\<close>, \<^verbatim>\<open>cures\<close>) and whose \<^verbatim>\<open>out_balance\<close> column holds
  numbers.
\<close>

record loans =
  categorical :: "(string \<times> string list) list"
  balances :: "real list option"

text \<open>
  \<^verbatim>\<open>df.groupby(col)['out_balance'].sum().loc[key]\<close>: KeyError when a column is
  missing or when no row has the value \<open>key\<close>.
\<close>

definition grouped_sum :: "loans \<Rightarrow> string \<Rightarrow> string \<Rightarrow> error + real" where
  "grouped_sum df col key =
     (case map_of (categorical df) col of
        None \<Rightarrow> Inl (KeyError col)
      | Some ks \<Rightarrow>
          (case balances df of
             None \<Rightarrow> Inl (KeyError ''Column not found: out_balance'')
           | Some bs \<Rightarrow>
               if key \<in> set ks
               then Inr (sum_list (map snd (filter (\<lambda>p. fst p = key) (zip ks bs))))
               else Inl (KeyError key)))"

text \<open>\<^verbatim>\<open>m[i, j] = x\<close> on an array, for indices inside it.\<close>

definition set_item :: "matrix \<Rightarrow> nat \<Rightarrow> nat \<Rightarrow> real \<Rightarrow> matrix" where
  "set_item m i j x = m[i := (m ! i)[j := x]]"

text \<open>
  \<^verbatim>\<open>cr_rr / cr_rr.sum(axis=1, keepdims=1)\<close>. numpy divides by a zero row sum without
  raising and yields \<^verbatim>\<open>nan\<close> or \<^verbatim>\<open>inf\<close>; the statements about the values of
  this matrix assume a positive sum.
\<close>

definition row_normalize :: "matrix \<Rightarrow> matrix" where
  "row_normalize m = map (\<lambda>r. map (\<lambda>x. x / sum_list r) r) m"

text \<open>
  The matrix of the \<^verbatim>\<open>recoveries\<close> branch, from the three aggregated balances:
  the identity with row 2 overwritten, then normalised.
\<close>

definition cr_rr :: "real \<Rightarrow> real \<Rightarrow> real \<Rightarrow> matrix" where
  "cr_rr cured recovered stage_3 =
     row_normalize (set_item (set_item (set_item (eye 3) 2 0 cured) 2 1 recovered) 2 2 stage_3)"

text \<open>\<^verbatim>\<open>[np.linalg.matrix_power(cr_rr, i)[2, j] for i in range(1, 301)]\<close>\<close>

definition cumulative_rate :: "matrix \<Rightarrow> nat \<Rightarrow> error + real list" where
  "cumulative_rate m j =
     comprehension
       (\<lambda>i. case matrix_power m i of Inl e \<Rightarrow> Inl e | Inr p \<Rightarrow> item p 2 j)
       [1..<301]"

record rates =
  cure_rates :: "real list"
  recovery_rates :: "real list option"

text \<open>
  In the \<^verbatim>\<open>else\<close> branch the source builds \<^verbatim>\<open>cr\<close> and then assigns to
  \<^verbatim>\<open>cr_rr[2, 2]\<close>. The right-hand side is evaluated first and groups by the column
  \<^verbatim>\<open>recoveries\<close>; were that to succeed, the target \<^verbatim>\<open>cr_rr\<close> is a local name
  that has no value yet.
\<close>

definition cure_rate :: "loans \<Rightarrow> error + rates" where
  "cure_rate df =
     (if ''recoveries'' \<in> set (map fst (categorical df))
      then (case grouped_sum df ''recoveries'' ''cured'' of Inl e \<Rightarrow> Inl e | Inr c \<Rightarrow>
           (case grouped_sum df ''recoveries'' ''recovered'' of Inl e \<Rightarrow> Inl e | Inr r \<Rightarrow>
           (case grouped_sum df ''recoveries'' ''stage_3'' of Inl e \<Rightarrow> Inl e | Inr s \<Rightarrow>
           (case cumulative_rate (cr_rr c r s) 0 of Inl e \<Rightarrow> Inl e | Inr cumulative_cure_rate \<Rightarrow>
           (case cumulative_rate (cr_rr c r s) 1 of Inl e \<Rightarrow> Inl e | Inr cumulative_recovery_rate \<Rightarrow>
              Inr \<lparr>cure_rates = marginal_pds cumulative_cure_rate,
                   recovery_rates = Some (marginal_pds cumulative_recovery_rate)\<rparr>)))))
      else (case grouped_sum df ''cures'' ''cured'' of Inl e \<Rightarrow> Inl e | Inr c \<Rightarrow>
           (case grouped_sum df ''recoveries'' ''stage_3'' of Inl e \<Rightarrow> Inl e | Inr s \<Rightarrow>
              Inl (UnboundLocalError ''cr_rr''))))"

section \<open>Properties of matrices\<close>

text \<open>
  An \<open>n\<close> by \<open>n\<close> array; a row-stochastic matrix (no negative entry, every row sums
  to 1); a matrix whose last row is the unit vector of the last column.
\<close>

definition mat :: "nat \<Rightarrow> matrix \<Rightarrow> bool" where
  "mat n a \<longleftrightarrow> length a = n \<and> list_all (\<lambda>r. length r = n) a"

definition stochastic :: "matrix \<Rightarrow> bool" where
  "stochastic a \<longleftrightarrow> list_all (\<lambda>r. list_all (\<lambda>x. 0 \<le> x) r \<and> sum_list r = 1) a"

definition unit_row :: "nat \<Rightarrow> real list" where
  "unit_row n = map (\<lambda>j. if j = n - 1 then 1 else 0) [0..<n]"

definition absorbing :: "matrix \<Rightarrow> bool" where
  "absorbing a \<longleftrightarrow> a \<noteq> [] \<and> last a = unit_row (length a)"

section \<open>Closed forms used in the proofs\<close>

text \<open>
  What the loops compute when no exception is raised: the frame with row \<open>k\<close> of every
  listed segment replaced, the cumulative sequence read off the mathematical powers, and
  the entry a successful pass of the stage loop writes for one segment and stage.
\<close>

definition absorb_all :: "nat \<Rightarrow> real list \<Rightarrow> string list \<Rightarrow> dataframe \<Rightarrow> dataframe" where
  "absorb_all k v segs df = df\<lparr>rows := fold (\<lambda>s. set_row s k v) segs (rows df)\<rparr>"

definition absorb_result :: "bool \<Rightarrow> nat \<Rightarrow> real list \<Rightarrow> string list \<Rightarrow> dataframe \<Rightarrow> dataframe" where
  "absorb_result copy_on_write k v segs df =
     (if writes_through copy_on_write df then absorb_all k v segs df else df)"

definition popt :: "matrix \<Rightarrow> nat \<Rightarrow> matrix option" where
  "popt a m = (if m = 0 then None else Some (mat_pow a m))"

definition cum_seq :: "matrix \<Rightarrow> nat \<Rightarrow> nat \<Rightarrow> real list" where
  "cum_seq m s c = map (\<lambda>i. mat_pow m i ! s ! c) [1..<301]"

definition seg_ok :: "dataframe \<Rightarrow> nat \<Rightarrow> string \<Rightarrow> bool" where
  "seg_ok df sz seg \<longleftrightarrow> square (loc df seg) \<and> sz - 1 < length (loc df seg)"

definition put :: "dataframe \<Rightarrow> nat \<Rightarrow> string \<Rightarrow> nat \<Rightarrow> stage_dict \<Rightarrow> stage_dict" where
  "put df sz seg stage d =
     \<lparr>cumulative_dict = AList.update seg (cum_seq (loc df seg) stage (sz - 1)) (cumulative_dict d),
      marginal_dict = AList.update seg (marginal_pds (cum_seq (loc df seg) stage (sz - 1))) (marginal_dict d)\<rparr>"

text \<open>The tuple \<^verbatim>\<open>extract_pds\<close> returns when no exception is raised.\<close>

definition tables :: "dataframe \<Rightarrow> nat \<Rightarrow> (string \<times> real list) list list" where
  "tables df sz =
     map (\<lambda>s. fold (\<lambda>seg. AList.update seg (cum_seq (loc df seg) s (sz - 1))) (segments df) []) [0..<sz - 1]
   @ map (\<lambda>s. fold (\<lambda>seg. AList.update seg (marginal_pds (cum_seq (loc df seg) s (sz - 1)))) (segments df) []) [0..<sz - 1]"

text \<open>
  For \<^verbatim>\<open>base_matrices\<close>: the table after the \<^verbatim>\<open>exit\<close> filter, the normalised row
  of one (segment, current stage) pair, and the total balance observed for that pair.
\<close>

definition kept :: "transition list \<Rightarrow> transition list" where
  "kept df0 = filter (\<lambda>r. next_stage r \<noteq> ''exit'') df0"

definition row_of :: "transition list \<Rightarrow> string \<Rightarrow> string \<Rightarrow> real list" where
  "row_of df0 seg cur =
     normalize_index (map (crosstab_cell (kept df0) seg cur) (sort (remdups (map next_stage (kept df0)))))"

definition row_total :: "transition list \<Rightarrow> string \<Rightarrow> string \<Rightarrow> real" where
  "row_total df0 seg cur =
     sum_list (map out_balance
       (filter (\<lambda>r. loan_type r = seg \<and> current_stage r = cur \<and> next_stage r \<noteq> ''exit'') df0))"




section \<open>Concrete inputs\<close>

definition example_frame :: dataframe where
  "example_frame =
     \<lparr>columns = [''stage_1'', ''stage_2'', ''stage_3''],
      rows = [((''A'', ''stage_1''), [9/10, 0, 1/10]),
              ((''A'', ''stage_2''), [1/2, 1/4, 1/4]),
              ((''A'', ''stage_3''), [1/5, 0, 4/5])]\<rparr>"

definition example_absorbed :: dataframe where
  "example_absorbed =
     \<lparr>columns = [''stage_1'', ''stage_2'', ''stage_3''],
      rows = [((''A'', ''stage_1''), [9/10, 0, 1/10]),
              ((''A'', ''stage_2''), [1/2, 1/4, 1/4]),
              ((''A'', ''stage_3''), [0, 0, 1])]\<rparr>"

definition example_store :: store where
  "example_store = (\<lambda>a. example_frame)"

definition example_loans :: loans where
  "example_loans =
     \<lparr>categorical = [(''recoveries'', [''cured'', ''recovered'', ''stage_3'', ''recovered''])],
      balances = Some [100, 150, 100, 50]\<rparr>"

definition example_cures_only :: loans where
  "example_cures_only =
     \<lparr>categorical = [(''cures'', [''cured'', ''stage_3''])], balances = Some [100, 50]\<rparr>"

definition zero_balance_table :: "transition list" where
  "zero_balance_table =
     [\<lparr>loan_type = ''A'', current_stage = ''stage_1'', next_stage = ''stage_1'', out_balance = 0\<rparr>]"

definition no_default_table :: "transition list" where
  "no_default_table =
     [\<lparr>loan_type = ''A'', current_stage = ''stage_1'', next_stage = ''stage_1'', out_balance = 80\<rparr>,
      \<lparr>loan_type = ''A'', current_stage = ''stage_2'', next_stage = ''stage_1'', out_balance = 50\<rparr>,
      \<lparr>loan_type = ''A'', current_stage = ''stage_3'', next_stage = ''stage_2'', out_balance = 10\<rparr>]"

definition example_table :: "transition list" where
  "example_table =
     [\<lparr>loan_type = ''A'', current_stage = ''stage_1'', next_stage = ''stage_1'', out_balance = 90\<rparr>,
      \<lparr>loan_type = ''A'', current_stage = ''stage_1'', next_stage = ''stage_2'', out_balance = 10\<rparr>,
      \<lparr>loan_type = ''A'', current_stage = ''stage_2'', next_stage = ''exit'', out_balance = 40\<rparr>]"













section \<open>Lemmas on rows, segments and the absorbing loop\<close>


lemma set_row_keys: "map fst (set_row seg k v rs) = map fst rs"
  by (induction rs arbitrary: k) (auto split: nat.splits)

lemma set_row_idem: "set_row seg k v (set_row seg k v rs) = set_row seg k v rs"
  by (induction rs arbitrary: k) (auto split: nat.splits)

lemma set_row_commute:
  "set_row s1 k v (set_row s2 j w rs) = set_row s2 j w (set_row s1 k v rs)" if "s1 \<noteq> s2"
  using that by (induction rs arbitrary: k j) (auto split: nat.splits)

lemma filter_set_row_other:
  "s \<noteq> seg \<Longrightarrow> filter (\<lambda>r. fst (fst r) = s) (set_row seg k v rs) = filter (\<lambda>r. fst (fst r) = s) rs"
  by (induction rs arbitrary: k) (auto split: nat.splits)

lemma loc_set_row_same:
  "map snd (filter (\<lambda>r. fst (fst r) = seg) (set_row seg k v rs))
     = (map snd (filter (\<lambda>r. fst (fst r) = seg) rs))[k := v]"
  by (induction rs arbitrary: k) (auto split: nat.splits)

lemma loc_set_row:
  "loc (df\<lparr>rows := set_row seg k v (rows df)\<rparr>) s
     = (if s = seg then (loc df seg)[k := v] else loc df s)"
  by (simp add: loc_def loc_set_row_same filter_set_row_other)

lemma set_unique: "set (unique xs) = set xs"
  by (induction xs rule: unique.induct) auto

lemma distinct_unique: "distinct (unique xs)"
  by (induction xs rule: unique.induct) (auto simp: set_unique)


lemma iloc_setitem_Inr:
  "iloc_setitem c df seg k v = Inr df' \<longleftrightarrow>
     k < length (loc df seg) \<and> length v = length (columns df)
     \<and> df' = (if writes_through c df then df\<lparr>rows := set_row seg k v (rows df)\<rparr> else df)"
  by (auto simp: iloc_setitem_def)

lemma length_loc_set_row:
  "length (loc (df\<lparr>rows := set_row seg k v (rows df)\<rparr>) s) = length (loc df s)"
  by (simp add: loc_set_row)

lemma map_seg_eq:
  "map fst rs = map fst rs' \<Longrightarrow> map (\<lambda>r. fst (fst r)) rs = map (\<lambda>r. fst (fst r)) rs'"
proof -
  assume "map fst rs = map fst rs'"
  then have "map fst (map fst rs) = map fst (map fst rs')" by simp
  then show ?thesis by (simp add: comp_def)
qed

lemma segments_set_row: "segments (df\<lparr>rows := set_row seg k v (rows df)\<rparr>) = segments df"
  by (simp add: segments_def map_seg_eq [OF set_row_keys])

lemma absorb_all_Nil: "absorb_all k v [] df = df"
  by (simp add: absorb_all_def)

lemma absorb_all_Cons:
  "absorb_all k v (s # segs) df = absorb_all k v segs (df\<lparr>rows := set_row s k v (rows df)\<rparr>)"
  by (simp add: absorb_all_def)

lemma writes_through_set_row:
  "writes_through c (df\<lparr>rows := set_row seg k v (rows df)\<rparr>) = writes_through c df"
  by (simp add: writes_through_def map_seg_eq [OF set_row_keys])

lemma absorb_result_Nil: "absorb_result c k v [] df = df"
  by (simp add: absorb_result_def absorb_all_Nil)

lemma absorb_result_Cons:
  "absorb_result c k v (s # segs) df
     = absorb_result c k v segs (if writes_through c df then df\<lparr>rows := set_row s k v (rows df)\<rparr> else df)"
  by (simp add: absorb_result_def absorb_all_Cons writes_through_set_row)

lemma absorb_loop_Inr:
  "absorb_loop c k v segs df = (df', Inr ()) \<longleftrightarrow>
     (\<forall>s\<in>set segs. k < length (loc df s)) \<and> (segs \<noteq> [] \<longrightarrow> length v = length (columns df))
     \<and> df' = absorb_result c k v segs df"
proof (induction segs arbitrary: df)
  case Nil
  show ?case by (auto simp: absorb_result_Nil)
next
  case (Cons s segs)
  show ?case
  proof (cases "iloc_setitem c df s k v")
    case (Inl e)
    then have "\<not> (k < length (loc df s) \<and> length v = length (columns df))"
      by (auto simp: iloc_setitem_def split: if_splits)
    with Inl show ?thesis by auto
  next
    case (Inr d)
    then have d: "k < length (loc df s)" "length v = length (columns df)"
      "d = (if writes_through c df then df\<lparr>rows := set_row s k v (rows df)\<rparr> else df)"
      by (simp_all add: iloc_setitem_Inr)
    have len: "length (loc d t) = length (loc df t)" for t
      by (simp add: d(3) length_loc_set_row)
    have col: "columns d = columns df" by (simp add: d(3))
    have "absorb_loop c k v (s # segs) df = absorb_loop c k v segs d"
      using Inr by simp
    moreover have "absorb_result c k v (s # segs) df = absorb_result c k v segs d"
      unfolding d(3) by (rule absorb_result_Cons)
    ultimately show ?thesis
      using d(1,2) by (auto simp: Cons.IH len col)
  qed
qed

lemma fold_set_row_commute:
  "fold (\<lambda>s. set_row s k v) segs (set_row a k v rs) = set_row a k v (fold (\<lambda>s. set_row s k v) segs rs)"
proof (induction segs arbitrary: rs)
  case Nil show ?case by simp
next
  case (Cons s segs)
  have "set_row s k v (set_row a k v rs) = set_row a k v (set_row s k v rs)"
    by (cases "s = a") (simp_all add: set_row_commute)
  then show ?case by (simp add: Cons.IH)
qed

lemma fold_set_row_idem:
  "fold (\<lambda>s. set_row s k v) segs (fold (\<lambda>s. set_row s k v) segs rs) = fold (\<lambda>s. set_row s k v) segs rs"
proof (induction segs arbitrary: rs)
  case Nil show ?case by simp
next
  case (Cons a segs)
  show ?case
    by (simp add: fold_set_row_commute set_row_idem Cons.IH)
qed

lemma absorb_all_idem: "absorb_all k v segs (absorb_all k v segs df) = absorb_all k v segs df"
  by (simp add: absorb_all_def fold_set_row_idem)

lemma absorb_all_columns: "columns (absorb_all k v segs df) = columns df"
  by (simp add: absorb_all_def)

lemma fold_set_row_keys: "map fst (fold (\<lambda>s. set_row s k v) segs rs) = map fst rs"
  by (induction segs arbitrary: rs) (simp_all add: set_row_keys)

lemma absorb_all_keys: "map fst (rows (absorb_all k v segs df)) = map fst (rows df)"
  by (simp add: absorb_all_def fold_set_row_keys)

lemma absorb_all_segments: "segments (absorb_all k v segs df) = segments df"
  by (simp add: segments_def map_seg_eq [OF absorb_all_keys])

lemma loc_absorb_all:
  "loc (absorb_all k v segs df) s = (if s \<in> set segs then (loc df s)[k := v] else loc df s)"
proof (induction segs arbitrary: df)
  case Nil show ?case by (simp add: absorb_all_Nil)
next
  case (Cons a segs)
  show ?case by (simp add: absorb_all_Cons Cons.IH loc_set_row)
qed

lemma absorb_result_idem:
  "absorb_result c k v segs (absorb_result c k v segs df) = absorb_result c k v segs df"
proof (cases "writes_through c df")
  case True
  have "writes_through c (absorb_all k v segs df)"
    using True by (simp add: writes_through_def map_seg_eq [OF absorb_all_keys])
  then show ?thesis using True by (simp add: absorb_result_def absorb_all_idem)
next
  case False
  then show ?thesis by (simp add: absorb_result_def)
qed

lemma absorb_result_columns: "columns (absorb_result c k v segs df) = columns df"
  by (simp add: absorb_result_def absorb_all_columns)

lemma absorb_result_keys: "map fst (rows (absorb_result c k v segs df)) = map fst (rows df)"
  by (simp add: absorb_result_def absorb_all_keys)

lemma absorb_result_segments: "segments (absorb_result c k v segs df) = segments df"
  by (simp add: segments_def map_seg_eq [OF absorb_result_keys])

lemma length_loc_absorb_result:
  "length (loc (absorb_result c k v segs df) s) = length (loc df s)"
  by (simp add: absorb_result_def loc_absorb_all)

lemma absorb_loop_idem:
  assumes "absorb_loop c k v (segments df) df = (df', Inr ())"
  shows "absorb_loop c k v (segments df') df' = (df', Inr ())"
proof -
  from assms have a: "\<forall>s\<in>set (segments df). k < length (loc df s)"
    "segments df \<noteq> [] \<longrightarrow> length v = length (columns df)"
    "df' = absorb_result c k v (segments df) df"
    by (simp_all add: absorb_loop_Inr)
  have s: "segments df' = segments df" by (simp add: a(3) absorb_result_segments)
  show ?thesis
    unfolding absorb_loop_Inr s using a(1,2)
    by (simp add: a(3) absorb_result_idem absorb_result_columns length_loc_absorb_result)
qed

section \<open>Lemmas on matrix products and powers\<close>


lemma mat_iff: "mat n a \<longleftrightarrow> length a = n \<and> (\<forall>r\<in>set a. length r = n)"
  by (simp add: mat_def list_all_iff)

lemma mat_square: "mat n a \<Longrightarrow> square a"
  by (auto simp: mat_iff square_def list_all_iff)

lemma square_mat: "square a \<Longrightarrow> mat (length a) a"
  by (auto simp: mat_iff square_def list_all_iff)

lemma mat_ncols: "mat n a \<Longrightarrow> ncols a = n"
  by (cases a) (auto simp: mat_iff ncols_def)

lemma mat_nth_length: "mat n a \<Longrightarrow> i < n \<Longrightarrow> length (a ! i) = n"
  by (auto simp: mat_iff)

lemma sum_list_upt: "sum_list (map f [0..<n]) = (\<Sum>k<n. f k)"
  by (simp add: interv_sum_list_conv_sum_set_nat atLeast0LessThan)

lemma matmul_nth:
  assumes "mat n a" "mat n b" "i < n" "j < n"
  shows "matmul a b ! i ! j = (\<Sum>k<n. a ! i ! k * b ! k ! j)"
  using assms by (simp add: matmul_def mat_ncols sum_list_upt) (simp add: mat_iff)

lemma mat_matmul:
  assumes "mat n a" "mat n b" shows "mat n (matmul a b)"
  using assms by (auto simp: matmul_def mat_ncols) (auto simp: mat_iff)

lemma mat_eqI:
  assumes "mat n a" "mat n b" "\<And>i j. i < n \<Longrightarrow> j < n \<Longrightarrow> a ! i ! j = b ! i ! j"
  shows "a = b"
proof (rule nth_equalityI)
  show "length a = length b" using assms by (simp add: mat_iff)
next
  fix i assume "i < length a"
  then have i: "i < n" using assms(1) by (simp add: mat_iff)
  show "a ! i = b ! i"
  proof (rule nth_equalityI)
    show "length (a ! i) = length (b ! i)" using assms(1,2) i by (simp add: mat_nth_length)
  next
    fix j assume "j < length (a ! i)"
    then have "j < n" using assms(1) i by (simp add: mat_nth_length)
    then show "a ! i ! j = b ! i ! j" using i assms(3) by simp
  qed
qed

lemma matmul_assoc:
  assumes "mat n a" "mat n b" "mat n c"
  shows "matmul (matmul a b) c = matmul a (matmul b c)"
proof (rule mat_eqI [of n])
  show "mat n (matmul (matmul a b) c)" using assms by (simp add: mat_matmul)
  show "mat n (matmul a (matmul b c))" using assms by (simp add: mat_matmul)
next
  fix i j assume ij: "i < n" "j < n"
  have "matmul (matmul a b) c ! i ! j = (\<Sum>k<n. matmul a b ! i ! k * c ! k ! j)"
    using assms ij by (simp add: matmul_nth [of n] mat_matmul)
  also have "\<dots> = (\<Sum>k<n. (\<Sum>l<n. a ! i ! l * b ! l ! k) * c ! k ! j)"
    using assms ij by (intro sum.cong refl) (simp add: matmul_nth [of n])
  also have "\<dots> = (\<Sum>k<n. \<Sum>l<n. a ! i ! l * (b ! l ! k * c ! k ! j))"
    by (simp add: sum_distrib_right mult.assoc)
  also have "\<dots> = (\<Sum>l<n. \<Sum>k<n. a ! i ! l * (b ! l ! k * c ! k ! j))"
    by (rule sum.swap)
  also have "\<dots> = (\<Sum>l<n. a ! i ! l * (\<Sum>k<n. b ! l ! k * c ! k ! j))"
    by (simp add: sum_distrib_left)
  also have "\<dots> = (\<Sum>l<n. a ! i ! l * matmul b c ! l ! j)"
    using assms ij by (intro sum.cong refl) (simp add: matmul_nth [of n])
  also have "\<dots> = matmul a (matmul b c) ! i ! j"
    using assms ij by (simp add: matmul_nth [of n] mat_matmul)
  finally show "matmul (matmul a b) c ! i ! j = matmul a (matmul b c) ! i ! j" .
qed

lemma mat_eye: "mat n (eye n)"
  by (auto simp: mat_iff eye_def)

lemma mat_mat_pow: "mat n a \<Longrightarrow> mat n (mat_pow a t)"
proof (induction a t rule: mat_pow.induct)
  case (1 a) then show ?case using mat_eye [of n] by (simp add: mat_iff)
next
  case (2 a) then show ?case by simp
next
  case (3 a t) then show ?case by (simp add: mat_matmul)
qed

lemma mat_pow_Suc: "0 < t \<Longrightarrow> mat_pow a (Suc t) = matmul (mat_pow a t) a"
  by (cases t) simp_all

lemma mat_pow_add:
  assumes "mat n a" "0 < p" "0 < q"
  shows "mat_pow a (p + q) = matmul (mat_pow a p) (mat_pow a q)"
  using assms(3)
proof (induction q)
  case 0 then show ?case by simp
next
  case (Suc q)
  show ?case
  proof (cases "q = 0")
    case True
    then show ?thesis using assms(2) by (simp add: mat_pow_Suc)
  next
    case False
    then have "mat_pow a (p + Suc q) = matmul (matmul (mat_pow a p) (mat_pow a q)) a"
      using Suc.IH assms(2) by (simp add: mat_pow_Suc)
    also have "\<dots> = matmul (mat_pow a p) (matmul (mat_pow a q) a)"
      using assms(1) by (simp add: matmul_assoc [of n] mat_mat_pow)
    finally show ?thesis using False by (simp add: mat_pow_Suc)
  qed
qed

lemma np_loop_pow:
  assumes "mat k a"
  shows "0 < p \<Longrightarrow> np_loop a (Some (mat_pow a p)) (popt a m) n = popt a (m + 2 * p * n)"
proof (induction n arbitrary: p m rule: less_induct)
  case (less n)
  show ?case
  proof (cases "n = 0")
    case True
    then show ?thesis by (subst np_loop.simps) simp
  next
    case False
    let ?z = "matmul (mat_pow a p) (mat_pow a p)"
    have z: "?z = mat_pow a (2 * p)"
      using mat_pow_add [OF assms less.prems less.prems] by (simp add: mult_2)
    have r: "(if n mod 2 \<noteq> 0
              then (case popt a m of None \<Rightarrow> Some (mat_pow a (2 * p))
                    | Some r \<Rightarrow> Some (matmul r (mat_pow a (2 * p))))
              else popt a m) = popt a (m + 2 * p * (n mod 2))"
    proof (cases "n mod 2 = 0")
      case True then show ?thesis by simp
    next
      case odd: False
      then have n1: "n mod 2 = 1" by presburger
      show ?thesis
      proof (cases "m = 0")
        case True
        then show ?thesis using less.prems by (simp add: n1 popt_def)
      next
        case False
        then have "matmul (mat_pow a m) (mat_pow a (2 * p)) = mat_pow a (m + 2 * p)"
          using mat_pow_add [OF assms, of m "2 * p"] less.prems by simp
        then show ?thesis using False by (simp add: n1 popt_def)
      qed
    qed
    have lt: "n div 2 < n" using False by simp
    have "np_loop a (Some (mat_pow a p)) (popt a m) n
        = np_loop a (Some ?z) (if n mod 2 \<noteq> 0
              then (case popt a m of None \<Rightarrow> Some ?z | Some r \<Rightarrow> Some (matmul r ?z))
              else popt a m) (n div 2)"
      using False by (subst np_loop.simps) (simp add: Let_def del: np_loop.simps)
    also have "\<dots> = np_loop a (Some (mat_pow a (2 * p))) (popt a (m + 2 * p * (n mod 2))) (n div 2)"
      unfolding z r ..
    also have "\<dots> = popt a (m + 2 * p * (n mod 2) + 2 * (2 * p) * (n div 2))"
      using less.IH [OF lt, of "2 * p"] less.prems by simp
    also have "m + 2 * p * (n mod 2) + 2 * (2 * p) * (n div 2) = m + 2 * p * n"
    proof -
      have "n = n mod 2 + 2 * (n div 2)" by simp
      then have "2 * p * n = 2 * p * (n mod 2) + 2 * p * (2 * (n div 2))"
        by (metis distrib_left)
      then show ?thesis by simp
    qed
    finally show ?thesis .
  qed
qed

lemma np_loop_top:
  assumes "mat k a" "0 < n"
  shows "np_loop a None None n = Some (mat_pow a n)"
proof -
  have "np_loop a None None n = np_loop a (Some (mat_pow a 1)) (popt a (n mod 2)) (n div 2)"
    using assms(2) by (subst np_loop.simps) (auto simp: Let_def popt_def simp del: np_loop.simps)
  also have "\<dots> = popt a (n mod 2 + 2 * 1 * (n div 2))"
    by (rule np_loop_pow [OF assms(1)]) simp
  also have "\<dots> = Some (mat_pow a n)" using assms(2) by (simp add: popt_def)
  finally show ?thesis .
qed

lemma matrix_power_eq:
  assumes "mat k a"
  shows "matrix_power a n = Inr (mat_pow a n)"
proof -
  have sq: "square a" using assms by (rule mat_square)
  have k: "length a = k" using assms by (simp add: mat_iff)
  consider "n = 0" | "n = 1" | "n = 2" | "n = 3" | "3 < n" by linarith
  then show ?thesis
  proof cases
    case 5
    then show ?thesis using np_loop_top [OF assms, of n] sq by (simp add: matrix_power_def)
  qed (simp_all add: matrix_power_def sq numeral_2_eq_2 numeral_3_eq_3)
qed

section \<open>Lemmas on the loops of extract\_pds\<close>


lemma comprehension_ok:
  "(\<forall>x\<in>set xs. f x = Inr (g x)) \<Longrightarrow> comprehension f xs = Inr (map g xs)"
  by (induction xs) simp_all

lemma comprehension_err:
  "xs \<noteq> [] \<Longrightarrow> (\<forall>x\<in>set xs. f x = Inl e) \<Longrightarrow> comprehension f xs = Inl e"
  by (cases xs) simp_all

lemma item_mat: "mat n p \<Longrightarrow> item p i j = (if i < n \<and> j < n then Inr (p ! i ! j) else Inl IndexError)"
  by (auto simp: item_def mat_ncols) (auto simp: mat_def)

lemma cumulative_pds_eq:
  "cumulative_pds df seg stage sz =
     (if \<not> square (loc df seg) then Inl LinAlgError
      else if stage < length (loc df seg) \<and> sz - 1 < length (loc df seg)
      then Inr (cum_seq (loc df seg) stage (sz - 1))
      else Inl IndexError)"
proof (cases "square (loc df seg)")
  case False
  then show ?thesis
    unfolding cumulative_pds_def
    by (simp add: comprehension_err [where e = LinAlgError] matrix_power_def)
next
  case True
  let ?m = "loc df seg"
  have m: "mat (length ?m) ?m" using True by (rule square_mat)
  have f: "(case matrix_power ?m i of Inl e \<Rightarrow> Inl e | Inr p \<Rightarrow> item p stage (sz - 1))
      = (if stage < length ?m \<and> sz - 1 < length ?m
         then Inr (mat_pow ?m i ! stage ! (sz - 1)) else Inl IndexError)" for i
    by (simp add: matrix_power_eq [OF m] item_mat [OF mat_mat_pow [OF m]])
  show ?thesis
  proof (cases "stage < length ?m \<and> sz - 1 < length ?m")
    case ok: True
    show ?thesis
      unfolding cumulative_pds_def f cum_seq_def using True ok
      by (simp add: comprehension_ok)
  next
    case bad: False
    show ?thesis
      unfolding cumulative_pds_def f using True bad
      by (simp add: comprehension_err [where e = IndexError])
  qed
qed

lemma stage_loop_ok:
  assumes "seg_ok df sz seg" "\<forall>s\<in>set stages. s < sz - 1"
  shows "stage_loop df sz seg stages sd
     = Inr (fold (\<lambda>s sd. sd[s := put df sz seg s (sd ! s)]) stages sd)"
  using assms(2)
proof (induction stages arbitrary: sd)
  case Nil show ?case by simp
next
  case (Cons s stages)
  have "cumulative_pds df seg s sz = Inr (cum_seq (loc df seg) s (sz - 1))"
    using assms(1) Cons.prems by (simp add: cumulative_pds_eq seg_ok_def)
  then show ?case using Cons by (simp add: put_def)
qed

lemma stage_loop_bad:
  assumes "\<not> seg_ok df sz seg" "s < sz - 1"
  shows "\<exists>e. stage_loop df sz seg (s # stages) sd = Inl e"
  using assms by (auto simp: cumulative_pds_eq seg_ok_def)

lemma segment_loop_ok:
  assumes "\<forall>seg\<in>set segs. seg_ok df sz seg"
  shows "segment_loop df sz segs sd
     = Inr (fold (\<lambda>seg. fold (\<lambda>s sd. sd[s := put df sz seg s (sd ! s)]) [0..<sz - 1]) segs sd)"
  using assms
proof (induction segs arbitrary: sd)
  case Nil show ?case by simp
next
  case (Cons seg segs)
  then show ?case by (simp add: stage_loop_ok)
qed

lemma segment_loop_Inr:
  assumes "segment_loop df sz segs sd = Inr sd'" "1 < sz"
  shows "\<forall>seg\<in>set segs. seg_ok df sz seg"
  using assms(1)
proof (induction segs arbitrary: sd)
  case Nil show ?case by simp
next
  case (Cons seg segs)
  have ok: "seg_ok df sz seg"
  proof (rule ccontr)
    assume "\<not> seg_ok df sz seg"
    moreover have "[0..<sz - 1] = 0 # [1..<sz - 1]" using assms(2) by (simp add: upt_rec)
    moreover have "0 < sz - 1" using assms(2) by simp
    ultimately obtain e where "stage_loop df sz seg [0..<sz - 1] sd = Inl e"
      using stage_loop_bad [of df sz seg 0 "[1..<sz - 1]" sd] by auto
    with Cons.prems show False by simp
  qed
  with Cons show ?case by (auto simp: stage_loop_ok)
qed

lemma length_fold_put:
  "length (fold (\<lambda>s sd. sd[s := g s (sd ! s)]) stages sd) = length sd"
  by (induction stages arbitrary: sd) simp_all

lemma nth_fold_put:
  assumes "distinct stages" "s < length sd"
  shows "fold (\<lambda>s sd. sd[s := g s (sd ! s)]) stages sd ! s
       = (if s \<in> set stages then g s (sd ! s) else sd ! s)"
  using assms
proof (induction stages arbitrary: sd)
  case Nil show ?case by simp
next
  case (Cons a stages)
  have ne: "s \<in> set stages \<Longrightarrow> a \<noteq> s" using Cons.prems(1) by auto
  have "fold (\<lambda>s sd. sd[s := g s (sd ! s)]) (a # stages) sd ! s
      = (if s \<in> set stages then g s (sd[a := g a (sd ! a)] ! s) else sd[a := g a (sd ! a)] ! s)"
    using Cons.prems by (simp add: Cons.IH)
  also have "\<dots> = (if s \<in> set (a # stages) then g s (sd ! s) else sd ! s)"
    using Cons.prems(2) ne by (auto simp: nth_list_update)
  finally show ?case .
qed

lemma length_fold_seg:
  "length (fold (\<lambda>seg. fold (\<lambda>s sd. sd[s := g seg s (sd ! s)]) stages) segs sd) = length sd"
  by (induction segs arbitrary: sd) (simp_all add: length_fold_put)

lemma nth_fold_seg:
  assumes "distinct stages" "s < length sd" "s \<in> set stages"
  shows "fold (\<lambda>seg. fold (\<lambda>s sd. sd[s := g seg s (sd ! s)]) stages) segs sd ! s
       = fold (\<lambda>seg. g seg s) segs (sd ! s)"
  using assms(2)
proof (induction segs arbitrary: sd)
  case Nil show ?case by simp
next
  case (Cons seg segs)
  show ?case
    using Cons.prems assms(1,3)
    by (simp add: Cons.IH length_fold_put nth_fold_put)
qed

lemma cumulative_dict_fold_put:
  "cumulative_dict (fold (\<lambda>seg. put df sz seg s) segs d)
     = fold (\<lambda>seg. AList.update seg (cum_seq (loc df seg) s (sz - 1))) segs (cumulative_dict d)"
  by (induction segs arbitrary: d) (simp_all add: put_def)

lemma marginal_dict_fold_put:
  "marginal_dict (fold (\<lambda>seg. put df sz seg s) segs d)
     = fold (\<lambda>seg. AList.update seg (marginal_pds (cum_seq (loc df seg) s (sz - 1)))) segs (marginal_dict d)"
  by (induction segs arbitrary: d) (simp_all add: put_def)

lemma map_of_fold_update:
  "map_of (fold (\<lambda>k. AList.update k (f k)) ks d) k
     = (if k \<in> set ks then Some (f k) else map_of d k)"
  by (induction ks arbitrary: d) (auto simp: update_conv')

section \<open>Lemmas on absorbing\_state and extract\_pds\<close>


lemma unit_row_3: "unit_row 3 = [0, 0, 1]"
  by (simp add: unit_row_def upt_rec)

lemma unit_row_4: "unit_row 4 = [0, 0, 0, 1]"
  by (simp add: unit_row_def upt_rec)

lemma absorbing_state_Inr:
  "absorbing_state c \<sigma> r k = (\<sigma>', Inr r') \<longleftrightarrow>
     k \<in> {3, 4} \<and> r' = r \<and>
     (\<exists>df'. absorb_loop c (nat k - 1) (unit_row (nat k)) (segments (\<sigma> r)) (\<sigma> r) = (df', Inr ())
           \<and> \<sigma>' = \<sigma>(r := df'))"
proof (cases "k = 3")
  case True
  obtain d x where "absorb_loop c 2 [0, 0, 1] (segments (\<sigma> r)) (\<sigma> r) = (d, x)" by force
  then show ?thesis using True
    by (cases x) (auto simp: absorbing_state_def unit_row_3)
next
  case False
  obtain d x where "absorb_loop c 3 [0, 0, 0, 1] (segments (\<sigma> r)) (\<sigma> r) = (d, x)" by force
  then show ?thesis using False
    by (cases x) (auto simp: absorbing_state_def unit_row_4)
qed


lemma example_run:
  "absorbing_state False example_store 0 3 = (example_store(0 := example_absorbed), Inr 0)"
  by (simp add: absorbing_state_def example_store_def example_frame_def example_absorbed_def
      segments_def iloc_setitem_def loc_def writes_through_def)


lemma absorb_loop_error:
  "absorb_loop c k v segs df = (df', Inl e) \<Longrightarrow> e = IndexError \<or> e = LibraryValueError"
proof (induction segs arbitrary: df)
  case Nil then show ?case by simp
next
  case (Cons s segs)
  then show ?case
    by (cases "iloc_setitem c df s k v") (auto simp: iloc_setitem_def split: if_splits)
qed

lemma absorbing_state_valid_size_error:
  assumes "k \<in> {3, 4}"
  shows "snd (absorbing_state c \<sigma> r k) \<noteq> Inl (ValueError ''Invalid matrix size. Should be 3 or 4 only.'')"
proof -
  obtain d x where l: "absorb_loop c (nat k - 1) (unit_row (nat k)) (segments (\<sigma> r)) (\<sigma> r) = (d, x)"
    by force
  show ?thesis
  proof (cases x)
    case (Inl e)
    with l have "e = IndexError \<or> e = LibraryValueError"
      using absorb_loop_error by blast
    then show ?thesis using assms l Inl
      by (auto simp: absorbing_state_def unit_row_3 unit_row_4)
  next
    case (Inr u)
    then show ?thesis using assms l
      by (auto simp: absorbing_state_def unit_row_3 unit_row_4)
  qed
qed

lemma absorbing_state_succeeds:
  assumes "k \<in> {3, 4}" "\<forall>seg\<in>set (segments (\<sigma> r)). length (loc (\<sigma> r) seg) = nat k"
    "length (columns (\<sigma> r)) = nat k"
  shows "snd (absorbing_state c \<sigma> r k) = Inr r"
proof -
  have n: "length (unit_row (nat k)) = nat k" by (simp add: unit_row_def)
  have "absorb_loop c (nat k - 1) (unit_row (nat k)) (segments (\<sigma> r)) (\<sigma> r)
      = (absorb_result c (nat k - 1) (unit_row (nat k)) (segments (\<sigma> r)) (\<sigma> r), Inr ())"
    unfolding absorb_loop_Inr using assms by (auto simp: n)
  then have "absorbing_state c \<sigma> r k
      = (\<sigma>(r := absorb_result c (nat k - 1) (unit_row (nat k)) (segments (\<sigma> r)) (\<sigma> r)), Inr r)"
    unfolding absorbing_state_Inr using assms(1) by blast
  then show ?thesis by simp
qed

lemma stage_loop_error:
  "stage_loop df sz seg stages sd = Inl e \<Longrightarrow> e = LinAlgError \<or> e = IndexError"
proof (induction stages arbitrary: sd)
  case Nil then show ?case by simp
next
  case (Cons s stages)
  then show ?case
    by (cases "cumulative_pds df seg s sz") (auto simp: cumulative_pds_eq split: if_splits)
qed

lemma segment_loop_error:
  "segment_loop df sz segs sd = Inl e \<Longrightarrow> e = LinAlgError \<or> e = IndexError"
proof (induction segs arbitrary: sd)
  case Nil then show ?case by simp
next
  case (Cons s segs)
  then show ?case
    by (cases "stage_loop df sz s [0..<sz - 1] sd") (auto dest: stage_loop_error)
qed

lemma extract_pds_valid_size_error:
  assumes "k \<in> {3, 4}"
  shows "extract_pds df k \<noteq> Inl (ValueError ''Invalid matrix size. Should be 3 or 4 only'')"
proof
  assume a: "extract_pds df k = Inl (ValueError ''Invalid matrix size. Should be 3 or 4 only'')"
  let ?r = "segment_loop df (nat k) (segments df)
              (replicate (nat k - 1) \<lparr>cumulative_dict = [], marginal_dict = []\<rparr>)"
  show False
  proof (cases ?r)
    case (Inl e)
    then have "e = LinAlgError \<or> e = IndexError" by (rule segment_loop_error)
    with a Inl assms show False by (auto simp: extract_pds_def)
  next
    case (Inr sd)
    with a assms show False by (auto simp: extract_pds_def)
  qed
qed

lemma mat_seg_ok: "mat n (loc df seg) \<Longrightarrow> 0 < n \<Longrightarrow> seg_ok df n seg"
  by (simp add: seg_ok_def mat_square) (simp add: mat_iff)

lemma extract_pds_ok:
  assumes "k \<in> {3, 4}" "\<forall>seg\<in>set (segments df). seg_ok df (nat k) seg"
  shows "extract_pds df k = Inr (tables df (nat k))"
proof -
  define sz where "sz = nat k"
  define m where "m = sz - 1"
  define init where "init = replicate m \<lparr>cumulative_dict = [], marginal_dict = []\<rparr>"
  define sd where
    "sd = fold (\<lambda>seg. fold (\<lambda>s sd. sd[s := put df sz seg s (sd ! s)]) [0..<m]) (segments df) init"
  have l: "segment_loop df sz (segments df) init = Inr sd"
    unfolding sd_def m_def using assms(2) unfolding sz_def by (rule segment_loop_ok)
  have len: "length sd = m" by (simp add: sd_def length_fold_seg init_def)
  have nth: "sd ! s = fold (\<lambda>seg. put df sz seg s) (segments df) \<lparr>cumulative_dict = [], marginal_dict = []\<rparr>"
    if "s < m" for s
    using that nth_fold_seg [of "[0..<m]" s init "put df sz" "segments df"]
    by (simp add: sd_def init_def)
  have c: "map cumulative_dict sd
      = map (\<lambda>s. fold (\<lambda>seg. AList.update seg (cum_seq (loc df seg) s (sz - 1))) (segments df) []) [0..<m]"
    by (rule nth_equalityI) (simp_all add: len nth cumulative_dict_fold_put)
  have mg: "map marginal_dict sd
      = map (\<lambda>s. fold (\<lambda>seg. AList.update seg (marginal_pds (cum_seq (loc df seg) s (sz - 1)))) (segments df) []) [0..<m]"
    by (rule nth_equalityI) (simp_all add: len nth marginal_dict_fold_put)
  have "extract_pds df k = Inr (map cumulative_dict sd @ map marginal_dict sd)"
    using assms(1) l by (simp add: extract_pds_def sz_def init_def m_def)
  also have "map cumulative_dict sd @ map marginal_dict sd = tables df sz"
    unfolding c mg tables_def m_def ..
  finally show ?thesis by (simp add: sz_def)
qed

lemma extract_pds_Inr:
  assumes "extract_pds df k = Inr tabs"
  shows "k \<in> {3, 4} \<and> (\<forall>seg\<in>set (segments df). seg_ok df (nat k) seg) \<and> tabs = tables df (nat k)"
proof -
  have k: "k \<in> {3, 4}" using assms by (auto simp: extract_pds_def split: if_splits)
  then have sz: "1 < nat k" by auto
  obtain sd where "segment_loop df (nat k) (segments df)
      (replicate (nat k - 1) \<lparr>cumulative_dict = [], marginal_dict = []\<rparr>) = Inr sd"
    using assms k by (auto simp: extract_pds_def split: sum.splits)
  then have ok: "\<forall>seg\<in>set (segments df). seg_ok df (nat k) seg"
    using sz by (rule segment_loop_Inr)
  with k assms show ?thesis by (simp add: extract_pds_ok)
qed

lemma tables_length: "length (tables df sz) = 2 * (sz - 1)"
  by (simp add: tables_def)

lemma tables_cumulative:
  assumes "s < sz - 1" "seg \<in> set (segments df)"
  shows "map_of (tables df sz ! s) seg = Some (cum_seq (loc df seg) s (sz - 1))"
  using assms by (simp add: tables_def nth_append map_of_fold_update)

lemma tables_marginal:
  assumes "s < sz - 1" "seg \<in> set (segments df)"
  shows "map_of (tables df sz ! (sz - 1 + s)) seg = Some (marginal_pds (cum_seq (loc df seg) s (sz - 1)))"
proof -
  let ?c = "map (\<lambda>s. fold (\<lambda>seg. AList.update seg (cum_seq (loc df seg) s (sz - 1))) (segments df) []) [0..<sz - 1]"
  let ?m = "map (\<lambda>s. fold (\<lambda>seg. AList.update seg (marginal_pds (cum_seq (loc df seg) s (sz - 1)))) (segments df) []) [0..<sz - 1]"
  have "tables df sz ! (sz - 1 + s) = (?c @ ?m) ! (length ?c + s)" by (simp add: tables_def)
  also have "\<dots> = ?m ! s" by (rule nth_append_length_plus)
  finally show ?thesis using assms by (simp add: map_of_fold_update)
qed

lemma cum_seq_length: "length (cum_seq m s c) = 300"
  by (simp add: cum_seq_def)

lemma cum_seq_nth: "t < 300 \<Longrightarrow> cum_seq m s c ! t = mat_pow m (Suc t) ! s ! c"
  by (simp add: cum_seq_def)

lemma marginal_pds_length: "length (marginal_pds c) = length c"
  by (simp add: marginal_pds_def)

lemma marginal_pds_nth:
  "t < length c \<Longrightarrow> marginal_pds c ! t = (if t = 0 then c ! t else c ! t - c ! (t - 1))"
  by (cases t) (simp_all add: marginal_pds_def)

section \<open>Lemmas on row-stochastic matrices\<close>








section \<open>Lemmas on cure\_rate and on the concrete inputs\<close>

lemma eye_3: "eye 3 = [[1, 0, 0], [0, 1, 0], [0, 0, 1]]"
  by (simp add: eye_def upt_rec)

lemma cr_rr_eq:
  "cr_rr c r s = [[1, 0, 0], [0, 1, 0], [c / (c + r + s), r / (c + r + s), s / (c + r + s)]]"
  by (simp add: cr_rr_def set_item_def row_normalize_def eye_3)

lemma mat_cr_rr: "mat 3 (cr_rr c r s)"
  by (simp add: cr_rr_eq mat_def)

lemma comprehension_length: "comprehension f xs = Inr ys \<Longrightarrow> length ys = length xs"
  by (induction xs arbitrary: ys) (auto split: sum.splits)

lemma cumulative_rate_ok:
  assumes "mat n m" "2 < n" "j < n"
  shows "cumulative_rate m j = Inr (cum_seq m 2 j)"
proof -
  have "(case matrix_power m i of Inl e \<Rightarrow> Inl e | Inr p \<Rightarrow> item p 2 j) = Inr (mat_pow m i ! 2 ! j)" for i
    using assms(2,3) by (simp add: matrix_power_eq [OF assms(1)] item_mat [OF mat_mat_pow [OF assms(1)]])
  then show ?thesis
    unfolding cumulative_rate_def cum_seq_def by (simp add: comprehension_ok)
qed

lemma cure_rate_recoveries:
  assumes "''recoveries'' \<in> set (map fst (categorical df))"
    "grouped_sum df ''recoveries'' ''cured'' = Inr c"
    "grouped_sum df ''recoveries'' ''recovered'' = Inr r"
    "grouped_sum df ''recoveries'' ''stage_3'' = Inr s"
  shows "cure_rate df = Inr \<lparr>cure_rates = marginal_pds (cum_seq (cr_rr c r s) 2 0),
                            recovery_rates = Some (marginal_pds (cum_seq (cr_rr c r s) 2 1))\<rparr>"
  using assms by (simp add: cure_rate_def cumulative_rate_ok [OF mat_cr_rr])

lemma cure_rate_Inr:
  assumes "cure_rate df = Inr rt"
  shows "\<exists>c r s. grouped_sum df ''recoveries'' ''cured'' = Inr c
           \<and> grouped_sum df ''recoveries'' ''recovered'' = Inr r
           \<and> grouped_sum df ''recoveries'' ''stage_3'' = Inr s
           \<and> rt = \<lparr>cure_rates = marginal_pds (cum_seq (cr_rr c r s) 2 0),
                    recovery_rates = Some (marginal_pds (cum_seq (cr_rr c r s) 2 1))\<rparr>"
  using assms
  by (auto simp: cure_rate_def cumulative_rate_ok [OF mat_cr_rr] split: if_splits sum.splits)

lemma grouped_sum_missing_column:
  "col \<notin> set (map fst (categorical df)) \<Longrightarrow> grouped_sum df col key = Inl (KeyError col)"
proof -
  assume "col \<notin> set (map fst (categorical df))"
  then have "map_of (categorical df) col = None" by (simp add: map_of_eq_None_iff)
  then show ?thesis by (simp add: grouped_sum_def)
qed

lemma example_loans_sums:
  "grouped_sum example_loans ''recoveries'' ''cured'' = Inr 100"
  "grouped_sum example_loans ''recoveries'' ''recovered'' = Inr 200"
  "grouped_sum example_loans ''recoveries'' ''stage_3'' = Inr 100"
  by (simp_all add: grouped_sum_def example_loans_def)

lemma example_loans_run:
  "cure_rate example_loans = Inr \<lparr>cure_rates = marginal_pds (cum_seq (cr_rr 100 200 100) 2 0),
                            recovery_rates = Some (marginal_pds (cum_seq (cr_rr 100 200 100) 2 1))\<rparr>"
  by (rule cure_rate_recoveries [OF _ example_loans_sums]) (simp add: example_loans_def)

lemma example_segments: "segments example_absorbed = [''A'']"
  by (simp add: segments_def example_absorbed_def)

lemma example_loc:
  "loc example_absorbed ''A'' = [[9/10, 0, 1/10], [1/2, 1/4, 1/4], [0, 0, 1]]"
  by (simp add: loc_def example_absorbed_def)

lemma example_mat: "mat 3 (loc example_absorbed ''A'')"
  by (simp add: example_loc mat_def)

lemma example_stochastic: "stochastic (loc example_absorbed ''A'')"
  by (simp add: example_loc stochastic_def)

lemma example_is_absorbing: "absorbing (loc example_absorbed ''A'')"
  by (simp add: example_loc absorbing_def unit_row_def upt_rec)

lemma example_extract:
  "extract_pds example_absorbed 3 = Inr (tables example_absorbed (nat 3))"
proof (rule extract_pds_ok)
  show "(3::int) \<in> {3, 4}" by simp
  show "\<forall>seg\<in>set (segments example_absorbed). seg_ok example_absorbed (nat 3) seg"
    using mat_seg_ok [OF example_mat] by (simp add: example_segments)
qed

section \<open>Lemmas on base\_matrices\<close>

lemma sum_list_delta:
  assumes "distinct ks" "a \<in> set ks"
  shows "sum_list (map (\<lambda>k. if a = k then (v::real) else 0) ks) = v"
proof -
  have "sum_list (map (\<lambda>k. if a = k then v else 0) ks) = (\<Sum>k\<in>set ks. if a = k then v else 0)"
    using assms(1) by (rule sum_list_distinct_conv_sum_set)
  also have "\<dots> = v" using assms(2) by simp
  finally show ?thesis .
qed

lemma sum_by_key:
  assumes "distinct ks" "\<forall>x\<in>set xs. key x \<in> set ks"
  shows "sum_list (map (\<lambda>k. sum_list (map f (filter (\<lambda>x. key x = k) xs))) ks)
       = sum_list (map (f :: 'a \<Rightarrow> real) xs)"
  using assms(2)
proof (induction xs)
  case Nil show ?case by simp
next
  case (Cons x xs)
  have "sum_list (map (\<lambda>k. sum_list (map f (filter (\<lambda>y. key y = k) (x # xs)))) ks)
      = sum_list (map (\<lambda>k. (if key x = k then f x else 0)
                            + sum_list (map f (filter (\<lambda>y. key y = k) xs))) ks)"
    by (intro arg_cong [where f = sum_list] map_cong refl) simp
  also have "\<dots> = sum_list (map (\<lambda>k. if key x = k then f x else 0) ks)
                 + sum_list (map (\<lambda>k. sum_list (map f (filter (\<lambda>y. key y = k) xs))) ks)"
    by (rule sum_list_addf)
  also have "\<dots> = f x + sum_list (map f xs)"
    using Cons assms(1) by (simp add: sum_list_delta)
  finally show ?case by simp
qed

lemma base_matrices_columns:
  "columns (base_matrices df0) = sort (remdups (map next_stage (kept df0)))"
  by (simp add: base_matrices_def kept_def Let_def)

lemma base_matrices_rows:
  "rows (base_matrices df0)
     = concat (map (\<lambda>seg. map (\<lambda>cur. ((seg, cur), row_of df0 seg cur))
                              (sort (remdups (map current_stage (kept df0)))))
                  (sort (remdups (map loan_type (kept df0)))))"
  by (simp add: base_matrices_def kept_def row_of_def Let_def)

lemma concat_product:
  "map fst (concat (map (\<lambda>a. map (\<lambda>b. ((a, b), g a b)) ys) xs)) = List.product xs ys"
  by (induction xs) (simp_all add: comp_def)

lemma base_matrices_index:
  "map fst (rows (base_matrices df0))
     = List.product (sort (remdups (map loan_type (kept df0))))
                    (sort (remdups (map current_stage (kept df0))))"
  by (simp add: base_matrices_rows concat_product)

lemma base_matrices_row_iff:
  "((seg, cur), vals) \<in> set (rows (base_matrices df0)) \<longleftrightarrow>
     seg \<in> loan_type ` set (kept df0) \<and> cur \<in> current_stage ` set (kept df0) \<and> vals = row_of df0 seg cur"
  by (auto simp: base_matrices_rows)

lemma row_of_length: "length (row_of df0 seg cur) = length (columns (base_matrices df0))"
  by (simp add: row_of_def normalize_index_def base_matrices_columns Let_def)

lemma cell_value:
  "(case crosstab_cell df seg cur nxt of None \<Rightarrow> 0 | Some x \<Rightarrow> x) = sum_list (observations df seg cur nxt)"
  by (simp add: crosstab_cell_def)

lemma cells_total:
  "sum_list (map (\<lambda>c. case c of None \<Rightarrow> 0 | Some x \<Rightarrow> x)
       (map (crosstab_cell (kept df0) seg cur) (sort (remdups (map next_stage (kept df0))))))
     = row_total df0 seg cur"
proof -
  let ?cols = "sort (remdups (map next_stage (kept df0)))"
  let ?sel = "filter (\<lambda>r. loan_type r = seg \<and> current_stage r = cur) (kept df0)"
  have o: "observations (kept df0) seg cur nxt
      = map out_balance (filter (\<lambda>r. next_stage r = nxt) ?sel)" for nxt
    by (simp add: observations_def conj_commute conj_left_commute)
  have "sum_list (map (\<lambda>c. case c of None \<Rightarrow> 0 | Some x \<Rightarrow> x) (map (crosstab_cell (kept df0) seg cur) ?cols))
      = sum_list (map (\<lambda>nxt. sum_list (map out_balance (filter (\<lambda>r. next_stage r = nxt) ?sel))) ?cols)"
    by (simp add: comp_def cell_value o)
  also have "\<dots> = sum_list (map out_balance ?sel)"
    by (rule sum_by_key) auto
  also have "\<dots> = row_total df0 seg cur"
    by (simp add: row_total_def kept_def conj_commute conj_left_commute)
  finally show ?thesis .
qed

lemma normalize_index_zero:
  assumes "sum_list (map (\<lambda>c. case c of None \<Rightarrow> 0 | Some x \<Rightarrow> x) r) = 0"
  shows "list_all (\<lambda>x. x = 0) (normalize_index r)"
  using assms by (auto simp: normalize_index_def list_all_iff split: option.splits)

lemma sum_list_divide:
  "sum_list (map (\<lambda>c. g c / (t::real)) r) = sum_list (map g r) / t"
  by (induction r) (simp_all add: add_divide_distrib)

lemma normalize_index_sum:
  assumes "sum_list (map (\<lambda>c. case c of None \<Rightarrow> 0 | Some x \<Rightarrow> x) r) \<noteq> 0"
  shows "sum_list (normalize_index r) = 1"
proof -
  define t where "t = sum_list (map (\<lambda>c. case c of None \<Rightarrow> 0 | Some x \<Rightarrow> x) r)"
  have "normalize_index r = map (\<lambda>c. (case c of None \<Rightarrow> 0 | Some x \<Rightarrow> x) / t) r"
    using assms by (auto simp: normalize_index_def t_def split: option.splits)
  then have "sum_list (normalize_index r) = sum_list (map (\<lambda>c. case c of None \<Rightarrow> 0 | Some x \<Rightarrow> x) r) / t"
    by (simp add: sum_list_divide)
  then show ?thesis using assms by (simp add: t_def)
qed

lemma normalize_index_None:
  "j < length r \<Longrightarrow> r ! j = None \<Longrightarrow> normalize_index r ! j = 0"
  by (simp add: normalize_index_def Let_def)

lemma filter_concat_product:
  assumes "distinct xs"
  shows "filter (\<lambda>r. fst (fst r) = a) (concat (map (\<lambda>a. map (\<lambda>b. ((a, b), g a b)) ys) xs))
       = (if a \<in> set xs then map (\<lambda>b. ((a, b), g a b)) ys else [])"
  using assms
proof (induction xs)
  case Nil show ?case by simp
next
  case (Cons x xs)
  have other: "filter (\<lambda>r. fst (fst r) = a) (map (\<lambda>b. ((x, b), g x b)) ys) = []" if "x \<noteq> a"
    using that by (simp add: filter_empty_conv)
  have same: "filter (\<lambda>r. fst (fst r) = a) (map (\<lambda>b. ((a, b), g a b)) ys) = map (\<lambda>b. ((a, b), g a b)) ys"
    by (simp add: filter_id_conv)
  show ?case
  proof (cases "x = a")
    case True
    then have "a \<notin> set xs" using Cons.prems by simp
    then show ?thesis using True Cons by (simp add: same)
  next
    case False
    then show ?thesis using Cons by (simp add: other)
  qed
qed

lemma base_matrices_segment_rows:
  assumes "seg \<in> loan_type ` set (kept df0)"
  shows "filter (\<lambda>r. fst (fst r) = seg) (rows (base_matrices df0))
       = map (\<lambda>cur. ((seg, cur), row_of df0 seg cur)) (sort (remdups (map current_stage (kept df0))))"
  using assms by (simp add: base_matrices_rows filter_concat_product)

lemma example_table_run:
  "base_matrices example_table
     = \<lparr>columns = [''stage_1'', ''stage_2''], rows = [((''A'', ''stage_1''), [9/10, 1/10])]\<rparr>"
  by (simp add: base_matrices_def example_table_def Let_def crosstab_cell_def observations_def
      normalize_index_def)

lemma no_default_table_run:
  "base_matrices no_default_table
     = \<lparr>columns = [''stage_1'', ''stage_2''],
        rows = [((''A'', ''stage_1''), [1, 0]), ((''A'', ''stage_2''), [1, 0]),
                ((''A'', ''stage_3''), [0, 1])]\<rparr>"
  by (simp add: base_matrices_def no_default_table_def Let_def crosstab_cell_def observations_def
      normalize_index_def)

lemma zero_balance_table_run:
  "base_matrices zero_balance_table
     = \<lparr>columns = [''stage_1''], rows = [((''A'', ''stage_1''), [0])]\<rparr>"
  by (simp add: base_matrices_def zero_balance_table_def Let_def crosstab_cell_def observations_def
      normalize_index_def)

section \<open>Lemmas on float64 arithmetic and on the exact cumulative sequence\<close>

















































section \<open>The claims\<close>

subsection \<open>C1: the cumulative sequences are the entries of the matrix powers\<close>

text \<open>
  Claim C1. For matrix_size 3 or 4 and a frame in which every segment's matrix is
  matrix_size by matrix_size (absorbing or not), \<^verbatim>\<open>extract_pds\<close> returns
  \<open>2 * (matrix_size - 1)\<close> tables; the table of stage \<open>s\<close> holds, under every segment, a
  sequence of length 300 whose value at index \<open>t - 1\<close>, for \<open>t\<close> from 1 to 300, is the
  entry \<open>[s, matrix_size - 1]\<close> of the \<open>t\<close>-th power of that segment's matrix. The power
  on the right is the mathematical one (\<open>mat_pow\<close>), the code computes it by numpy's
  binary decomposition.
\<close>

theorem extract_pds_cumulative:
  assumes "matrix_size \<in> {3, 4}"
    and "\<forall>seg\<in>set (segments df). mat (nat matrix_size) (loc df seg)"
    and "seg \<in> set (segments df)"
    and "s < nat matrix_size - 1"
    and "1 \<le> t" and "t \<le> 300"
  shows "\<exists>tabs c. extract_pds df matrix_size = Inr tabs
           \<and> length tabs = 2 * (nat matrix_size - 1)
           \<and> map_of (tabs ! s) seg = Some c
           \<and> length c = 300
           \<and> c ! (t - 1) = mat_pow (loc df seg) t ! s ! (nat matrix_size - 1)"
proof -
  have pos: "0 < nat matrix_size" using assms(1) by auto
  have "\<forall>seg\<in>set (segments df). seg_ok df (nat matrix_size) seg"
    using assms(2) pos by (simp add: mat_seg_ok)
  then have e: "extract_pds df matrix_size = Inr (tables df (nat matrix_size))"
    using assms(1) by (simp add: extract_pds_ok)
  have "cum_seq (loc df seg) s (nat matrix_size - 1) ! (t - 1)
      = mat_pow (loc df seg) t ! s ! (nat matrix_size - 1)"
    using assms(5,6) by (simp add: cum_seq_nth)
  then show ?thesis
    using e assms(3,4) by (simp add: tables_length tables_cumulative cum_seq_length)
qed

text \<open>
  C1 at the concrete frame \<open>example_absorbed\<close>, segment A, stage 0 and horizon 2.
\<close>

theorem extract_pds_cumulative_witness:
  "\<exists>tabs c. extract_pds example_absorbed 3 = Inr tabs
           \<and> length tabs = 2 * (nat 3 - 1)
           \<and> map_of (tabs ! 0) ''A'' = Some c
           \<and> length c = 300
           \<and> c ! (2 - 1) = mat_pow (loc example_absorbed ''A'') 2 ! 0 ! (nat 3 - 1)"
proof -
  have h1: "(3::int) \<in> {3, 4}" by simp
  have h2: "\<forall>seg\<in>set (segments example_absorbed). mat (nat 3) (loc example_absorbed seg)"
    using example_mat by (simp add: example_segments)
  have h3: "''A'' \<in> set (segments example_absorbed)" by (simp add: example_segments)
  have h4: "0 < nat 3 - 1" by simp
  have h5: "(1::nat) \<le> 2" "(2::nat) \<le> 300" by simp_all
  show ?thesis by (rule extract_pds_cumulative [OF h1 h2 h3 h4 h5])
qed

subsection \<open>C2: cumulative sequences are non-decreasing and lie in [0, 1]\<close>




subsection \<open>C3: marginal values are differences of cumulative values\<close>

text \<open>
  Claim C3. Whenever \<^verbatim>\<open>extract_pds\<close> returns, the marginal table of a stage holds,
  under every segment, the cumulative value at index 0 followed by the differences of
  consecutive cumulative values of the same stage and segment. Whenever \<^verbatim>\<open>cure_rate\<close>
  returns, its \<^verbatim>\<open>cure_rates\<close> and \<^verbatim>\<open>recovery_rates\<close> columns stand in the same
  relation to the cumulative rates it computes from its matrix.
\<close>

theorem marginal_is_difference:
  "(extract_pds df matrix_size = Inr tabs \<and> s < nat matrix_size - 1 \<and> seg \<in> set (segments df) \<longrightarrow>
      (\<exists>cumulative marginal.
         map_of (tabs ! s) seg = Some cumulative
       \<and> map_of (tabs ! (nat matrix_size - 1 + s)) seg = Some marginal
       \<and> length cumulative = 300 \<and> length marginal = 300
       \<and> marginal ! 0 = cumulative ! 0
       \<and> (\<forall>t. 1 \<le> t \<and> t < 300 \<longrightarrow> marginal ! t = cumulative ! t - cumulative ! (t - 1))))
   \<and> (cure_rate ldf = Inr rt \<longrightarrow>
      (\<exists>c r s' cumulative_cure_rate cumulative_recovery_rate rr.
         grouped_sum ldf ''recoveries'' ''cured'' = Inr c
       \<and> grouped_sum ldf ''recoveries'' ''recovered'' = Inr r
       \<and> grouped_sum ldf ''recoveries'' ''stage_3'' = Inr s'
       \<and> cumulative_rate (cr_rr c r s') 0 = Inr cumulative_cure_rate
       \<and> cumulative_rate (cr_rr c r s') 1 = Inr cumulative_recovery_rate
       \<and> recovery_rates rt = Some rr
       \<and> length (cure_rates rt) = 300 \<and> length rr = 300
       \<and> cure_rates rt ! 0 = cumulative_cure_rate ! 0
       \<and> rr ! 0 = cumulative_recovery_rate ! 0
       \<and> (\<forall>t. 1 \<le> t \<and> t < 300 \<longrightarrow>
             cure_rates rt ! t = cumulative_cure_rate ! t - cumulative_cure_rate ! (t - 1)
           \<and> rr ! t = cumulative_recovery_rate ! t - cumulative_recovery_rate ! (t - 1))))"
proof (intro conjI impI)
  assume a: "extract_pds df matrix_size = Inr tabs \<and> s < nat matrix_size - 1 \<and> seg \<in> set (segments df)"
  then have t: "tabs = tables df (nat matrix_size)" by (simp add: extract_pds_Inr)
  let ?c = "cum_seq (loc df seg) s (nat matrix_size - 1)"
  have s: "s < nat matrix_size - 1" and g: "seg \<in> set (segments df)" using a by simp_all
  have "map_of (tabs ! s) seg = Some ?c"
    "map_of (tabs ! (nat matrix_size - 1 + s)) seg = Some (marginal_pds ?c)"
    unfolding t by (rule tables_cumulative [OF s g], rule tables_marginal [OF s g])
  moreover have "length ?c = 300" "length (marginal_pds ?c) = 300"
    by (simp_all add: cum_seq_length marginal_pds_length)
  moreover have "marginal_pds ?c ! 0 = ?c ! 0"
    by (simp add: marginal_pds_nth cum_seq_length)
  moreover have "\<forall>t. 1 \<le> t \<and> t < 300 \<longrightarrow> marginal_pds ?c ! t = ?c ! t - ?c ! (t - 1)"
    by (simp add: marginal_pds_nth cum_seq_length)
  ultimately show "\<exists>cumulative marginal.
         map_of (tabs ! s) seg = Some cumulative
       \<and> map_of (tabs ! (nat matrix_size - 1 + s)) seg = Some marginal
       \<and> length cumulative = 300 \<and> length marginal = 300
       \<and> marginal ! 0 = cumulative ! 0
       \<and> (\<forall>t. 1 \<le> t \<and> t < 300 \<longrightarrow> marginal ! t = cumulative ! t - cumulative ! (t - 1))"
    by blast
next
  assume "cure_rate ldf = Inr rt"
  then obtain c r s' where g: "grouped_sum ldf ''recoveries'' ''cured'' = Inr c"
      "grouped_sum ldf ''recoveries'' ''recovered'' = Inr r"
      "grouped_sum ldf ''recoveries'' ''stage_3'' = Inr s'"
    and rt: "rt = \<lparr>cure_rates = marginal_pds (cum_seq (cr_rr c r s') 2 0),
                    recovery_rates = Some (marginal_pds (cum_seq (cr_rr c r s') 2 1))\<rparr>"
    using cure_rate_Inr by blast
  let ?cc = "cum_seq (cr_rr c r s') 2 0"
  let ?cr = "cum_seq (cr_rr c r s') 2 1"
  have k: "cumulative_rate (cr_rr c r s') 0 = Inr ?cc" "cumulative_rate (cr_rr c r s') 1 = Inr ?cr"
    by (simp_all add: cumulative_rate_ok [OF mat_cr_rr])
  have "recovery_rates rt = Some (marginal_pds ?cr)" by (simp add: rt)
  moreover have "length (cure_rates rt) = 300" "length (marginal_pds ?cr) = 300"
    by (simp_all add: rt cum_seq_length marginal_pds_length)
  moreover have "cure_rates rt ! 0 = ?cc ! 0" "marginal_pds ?cr ! 0 = ?cr ! 0"
    by (simp_all add: rt marginal_pds_nth cum_seq_length)
  moreover have "\<forall>t. 1 \<le> t \<and> t < 300 \<longrightarrow>
             cure_rates rt ! t = ?cc ! t - ?cc ! (t - 1)
           \<and> marginal_pds ?cr ! t = ?cr ! t - ?cr ! (t - 1)"
    by (simp add: rt marginal_pds_nth cum_seq_length)
  ultimately show "\<exists>c r s' cumulative_cure_rate cumulative_recovery_rate rr.
         grouped_sum ldf ''recoveries'' ''cured'' = Inr c
       \<and> grouped_sum ldf ''recoveries'' ''recovered'' = Inr r
       \<and> grouped_sum ldf ''recoveries'' ''stage_3'' = Inr s'
       \<and> cumulative_rate (cr_rr c r s') 0 = Inr cumulative_cure_rate
       \<and> cumulative_rate (cr_rr c r s') 1 = Inr cumulative_recovery_rate
       \<and> recovery_rates rt = Some rr
       \<and> length (cure_rates rt) = 300 \<and> length rr = 300
       \<and> cure_rates rt ! 0 = cumulative_cure_rate ! 0
       \<and> rr ! 0 = cumulative_recovery_rate ! 0
       \<and> (\<forall>t. 1 \<le> t \<and> t < 300 \<longrightarrow>
             cure_rates rt ! t = cumulative_cure_rate ! t - cumulative_cure_rate ! (t - 1)
           \<and> rr ! t = cumulative_recovery_rate ! t - cumulative_recovery_rate ! (t - 1))"
    using g k by blast
qed

text \<open>
  C3 at the frame \<open>example_absorbed\<close> and the table \<open>example_loans\<close>, on which both
  functions return.
\<close>

theorem marginal_is_difference_witness:
  "extract_pds example_absorbed 3 = Inr (tables example_absorbed (nat 3))
   \<and> (\<exists>cumulative marginal.
         map_of (tables example_absorbed (nat 3) ! 0) ''A'' = Some cumulative
       \<and> map_of (tables example_absorbed (nat 3) ! (nat 3 - 1 + 0)) ''A'' = Some marginal
       \<and> marginal ! 0 = cumulative ! 0
       \<and> (\<forall>t. 1 \<le> t \<and> t < 300 \<longrightarrow> marginal ! t = cumulative ! t - cumulative ! (t - 1)))
   \<and> (\<exists>rt cumulative_cure_rate.
         cure_rate example_loans = Inr rt
       \<and> cumulative_rate (cr_rr 100 200 100) 0 = Inr cumulative_cure_rate
       \<and> cure_rates rt ! 0 = cumulative_cure_rate ! 0
       \<and> (\<forall>t. 1 \<le> t \<and> t < 300 \<longrightarrow>
             cure_rates rt ! t = cumulative_cure_rate ! t - cumulative_cure_rate ! (t - 1)))"
proof -
  define rt where "rt = \<lparr>cure_rates = marginal_pds (cum_seq (cr_rr 100 200 100) 2 0),
                         recovery_rates = Some (marginal_pds (cum_seq (cr_rr 100 200 100) 2 1))\<rparr>"
  have h1: "extract_pds example_absorbed 3 = Inr (tables example_absorbed (nat 3))"
    by (rule example_extract)
  have h2: "(0::nat) < nat 3 - 1" by simp
  have h3: "''A'' \<in> set (segments example_absorbed)" by (simp add: example_segments)
  have h4: "cure_rate example_loans = Inr rt" unfolding rt_def by (rule example_loans_run)
  note w = marginal_is_difference [of example_absorbed 3 "tables example_absorbed (nat 3)" 0 "''A''"
      example_loans rt]
  from w h1 h2 h3 have a: "\<exists>cumulative marginal.
         map_of (tables example_absorbed (nat 3) ! 0) ''A'' = Some cumulative
       \<and> map_of (tables example_absorbed (nat 3) ! (nat 3 - 1 + 0)) ''A'' = Some marginal
       \<and> marginal ! 0 = cumulative ! 0
       \<and> (\<forall>t. 1 \<le> t \<and> t < 300 \<longrightarrow> marginal ! t = cumulative ! t - cumulative ! (t - 1))"
    by blast
  from w h4 example_loans_sums have b: "\<exists>cumulative_cure_rate.
         cumulative_rate (cr_rr 100 200 100) 0 = Inr cumulative_cure_rate
       \<and> cure_rates rt ! 0 = cumulative_cure_rate ! 0
       \<and> (\<forall>t. 1 \<le> t \<and> t < 300 \<longrightarrow>
             cure_rates rt ! t = cumulative_cure_rate ! t - cumulative_cure_rate ! (t - 1))"
    by (metis Inr_inject)
  from h1 a b h4 show ?thesis by blast
qed

subsection \<open>C4: absorbing\_state is idempotent\<close>

text \<open>
  Claim C4. When a call of \<^verbatim>\<open>absorbing_state\<close> returns, calling it again on what it
  returned, in the store it left, returns the same frame and changes nothing:
  \<open>absorb (absorb M) = absorb M\<close>. This holds for either pandas setting.
\<close>

theorem absorbing_state_idempotent:
  assumes "absorbing_state copy_on_write \<sigma> r k = (\<sigma>', Inr r')"
  shows "absorbing_state copy_on_write \<sigma>' r' k = (\<sigma>', Inr r')"
proof -
  from assms obtain df' where k: "k \<in> {3, 4}" and r: "r' = r"
    and l: "absorb_loop copy_on_write (nat k - 1) (unit_row (nat k)) (segments (\<sigma> r)) (\<sigma> r)
              = (df', Inr ())"
    and s: "\<sigma>' = \<sigma>(r := df')"
    unfolding absorbing_state_Inr by blast
  have "absorb_loop copy_on_write (nat k - 1) (unit_row (nat k)) (segments df') df' = (df', Inr ())"
    using l by (rule absorb_loop_idem)
  moreover have "\<sigma>' r = df'" "\<sigma>'(r := df') = \<sigma>'" by (simp_all add: s)
  ultimately show ?thesis
    unfolding absorbing_state_Inr r using k by simp
qed

text \<open>
  C4 at a store holding \<open>example_frame\<close>, without copy-on-write: the first call yields
  \<open>example_absorbed\<close>, the second leaves it as it is.
\<close>

theorem absorbing_state_idempotent_witness:
  "absorbing_state False example_store 0 3 = (example_store(0 := example_absorbed), Inr 0)
   \<and> absorbing_state False (example_store(0 := example_absorbed)) 0 3
       = (example_store(0 := example_absorbed), Inr 0)"
proof -
  have h: "absorbing_state False example_store 0 3 = (example_store(0 := example_absorbed), Inr 0)"
    by (rule example_run)
  from absorbing_state_idempotent [OF h] h show ?thesis by simp
qed

subsection \<open>C5: absorbing\_state returns the frame it was given\<close>




subsection \<open>C6: row sums of base\_matrices\<close>

text \<open>
  Claim C6 says that a row sums to 1 whenever its (segment, current stage) pair has
  observations. A pair whose only observation has a zero balance has a row of zeros.
\<close>

theorem zero_balance_row_sums_to_zero:
  "((''A'', ''stage_1''), [0]) \<in> set (rows (base_matrices zero_balance_table))
   \<and> observations (kept zero_balance_table) ''A'' ''stage_1'' ''stage_1'' = [0]
   \<and> sum_list [0 :: real] \<noteq> 1"
  by (simp add: zero_balance_table_run)
     (simp add: observations_def kept_def zero_balance_table_def)

text \<open>
  Claim C6 as amended. For a table whose balances are not negative, with the
  \<^verbatim>\<open>exit\<close> records left out, every row of the result sums to 1 when the total balance
  observed for its (segment, current stage) pair is positive, and is all zeros when that
  total is zero, which includes the pairs without observations.
\<close>

theorem base_matrices_row_sums:
  assumes "\<forall>r\<in>set df0. 0 \<le> out_balance r"
    and "((seg, cur), vals) \<in> set (rows (base_matrices df0))"
  shows "0 \<le> row_total df0 seg cur
     \<and> (0 < row_total df0 seg cur \<longrightarrow> sum_list vals = 1)
     \<and> (row_total df0 seg cur = 0 \<longrightarrow> list_all (\<lambda>x. x = 0) vals)"
proof -
  let ?cells = "map (crosstab_cell (kept df0) seg cur) (sort (remdups (map next_stage (kept df0))))"
  have v: "vals = normalize_index ?cells"
    using assms(2) by (simp add: base_matrices_row_iff row_of_def)
  have c: "sum_list (map (\<lambda>c. case c of None \<Rightarrow> 0 | Some x \<Rightarrow> x) ?cells) = row_total df0 seg cur"
    by (rule cells_total)
  have "0 \<le> row_total df0 seg cur"
    unfolding row_total_def using assms(1) by (intro sum_list_nonneg) auto
  moreover have "sum_list vals = 1" if "0 < row_total df0 seg cur"
    unfolding v using that normalize_index_sum [of ?cells] unfolding c by simp
  moreover have "list_all (\<lambda>x. x = 0) vals" if "row_total df0 seg cur = 0"
    unfolding v using that normalize_index_zero [of ?cells] unfolding c by simp
  ultimately show ?thesis by blast
qed

text \<open>
  The amended C6 at \<open>example_table\<close>, whose stage 1 row is \<open>[9/10, 1/10]\<close>.
\<close>

theorem base_matrices_row_sums_witness:
  "list_all (\<lambda>r. 0 \<le> out_balance r) example_table
   \<and> ((''A'', ''stage_1''), [9/10, 1/10]) \<in> set (rows (base_matrices example_table))
   \<and> row_total example_table ''A'' ''stage_1'' = 100
   \<and> sum_list [9/10, 1/10 :: real] = 1"
proof -
  have h1: "\<forall>r\<in>set example_table. 0 \<le> out_balance r" by (simp add: example_table_def)
  have h2: "((''A'', ''stage_1''), [9/10, 1/10]) \<in> set (rows (base_matrices example_table))"
    by (simp add: example_table_run)
  have t: "row_total example_table ''A'' ''stage_1'' = 100"
    by (simp add: row_total_def example_table_def)
  from base_matrices_row_sums [OF h1 h2] t have "sum_list [9/10, 1/10 :: real] = 1" by simp
  with h1 h2 t show ?thesis by (simp add: list_all_iff)
qed

subsection \<open>C7: shape of base\_matrices\<close>

text \<open>
  Claim C7 says that every stage is a row and a column of every segment's matrix. In
  \<open>no_default_table\<close> three stages occur as current stage and no loan moves to stage 3:
  the result has three rows and two columns, and no column for stage 3.
\<close>

theorem no_default_table_shape:
  "columns (base_matrices no_default_table) = [''stage_1'', ''stage_2'']
   \<and> map fst (rows (base_matrices no_default_table))
       = [(''A'', ''stage_1''), (''A'', ''stage_2''), (''A'', ''stage_3'')]
   \<and> length (loc (base_matrices no_default_table) ''A'') = 3
   \<and> length (columns (base_matrices no_default_table)) = 2"
  by (simp add: no_default_table_run loc_def)

text \<open>
  Claim C7 as amended. \<^verbatim>\<open>base_matrices\<close> has no stage list: with the \<^verbatim>\<open>exit\<close>
  records left out, the columns are the next stages that occur in the table, sorted; the
  row index is the product of the loan types and the current stages that occur, so every
  segment has one row per current stage that occurs anywhere; every row has one value
  per column; and a cell without observations holds zero.
\<close>

theorem base_matrices_shape:
  "columns (base_matrices df0) = sort (remdups (map next_stage (kept df0)))
   \<and> map fst (rows (base_matrices df0))
       = List.product (sort (remdups (map loan_type (kept df0))))
                      (sort (remdups (map current_stage (kept df0))))
   \<and> (\<forall>seg\<in>loan_type ` set (kept df0).
        map (\<lambda>r. snd (fst r)) (filter (\<lambda>r. fst (fst r) = seg) (rows (base_matrices df0)))
          = sort (remdups (map current_stage (kept df0))))
   \<and> (\<forall>row\<in>set (rows (base_matrices df0)). length (snd row) = length (columns (base_matrices df0)))
   \<and> (\<forall>seg cur vals j.
        ((seg, cur), vals) \<in> set (rows (base_matrices df0))
        \<and> j < length (columns (base_matrices df0))
        \<and> observations (kept df0) seg cur (columns (base_matrices df0) ! j) = []
        \<longrightarrow> vals ! j = 0)"
proof (intro conjI ballI allI impI)
  show "columns (base_matrices df0) = sort (remdups (map next_stage (kept df0)))"
    by (rule base_matrices_columns)
  show "map fst (rows (base_matrices df0))
       = List.product (sort (remdups (map loan_type (kept df0))))
                      (sort (remdups (map current_stage (kept df0))))"
    by (rule base_matrices_index)
next
  fix seg assume "seg \<in> loan_type ` set (kept df0)"
  then show "map (\<lambda>r. snd (fst r)) (filter (\<lambda>r. fst (fst r) = seg) (rows (base_matrices df0)))
          = sort (remdups (map current_stage (kept df0)))"
    by (simp add: base_matrices_segment_rows comp_def)
next
  fix row assume "row \<in> set (rows (base_matrices df0))"
  then have "((fst (fst row), snd (fst row)), snd row) \<in> set (rows (base_matrices df0))" by simp
  then have "snd row = row_of df0 (fst (fst row)) (snd (fst row))"
    unfolding base_matrices_row_iff by simp
  then show "length (snd row) = length (columns (base_matrices df0))"
    by (simp add: row_of_length)
next
  fix seg cur vals j
  assume a: "((seg, cur), vals) \<in> set (rows (base_matrices df0))
        \<and> j < length (columns (base_matrices df0))
        \<and> observations (kept df0) seg cur (columns (base_matrices df0) ! j) = []"
  let ?cols = "sort (remdups (map next_stage (kept df0)))"
  have v: "vals = row_of df0 seg cur" using a by (simp add: base_matrices_row_iff)
  have j: "j < length ?cols" using a by (simp add: base_matrices_columns)
  have "observations (kept df0) seg cur (?cols ! j) = []"
    using a by (simp add: base_matrices_columns)
  then have "map (crosstab_cell (kept df0) seg cur) ?cols ! j = None"
    using j by (simp add: crosstab_cell_def)
  then show "vals ! j = 0"
    unfolding v row_of_def using j by (intro normalize_index_None) simp_all
qed

text \<open>
  The amended C7 at \<open>example_table\<close> (shape) and at \<open>no_default_table\<close> (a cell without
  observations).
\<close>

theorem base_matrices_shape_witness:
  "columns (base_matrices example_table) = [''stage_1'', ''stage_2'']
   \<and> map fst (rows (base_matrices example_table)) = [(''A'', ''stage_1'')]
   \<and> ''A'' \<in> loan_type ` set (kept example_table)
   \<and> map (\<lambda>r. snd (fst r)) (filter (\<lambda>r. fst (fst r) = ''A'') (rows (base_matrices example_table)))
       = [''stage_1'']
   \<and> ((''A'', ''stage_2''), [1, 0]) \<in> set (rows (base_matrices no_default_table))
   \<and> observations (kept no_default_table) ''A'' ''stage_2'' ''stage_2'' = []
   \<and> [1, 0 :: real] ! 1 = 0"
proof -
  have k: "kept example_table
      = [\<lparr>loan_type = ''A'', current_stage = ''stage_1'', next_stage = ''stage_1'', out_balance = 90\<rparr>,
         \<lparr>loan_type = ''A'', current_stage = ''stage_1'', next_stage = ''stage_2'', out_balance = 10\<rparr>]"
    by (simp add: kept_def example_table_def)
  have s: "''A'' \<in> loan_type ` set (kept example_table)" by (simp add: k)
  have c: "columns (base_matrices no_default_table) = [''stage_1'', ''stage_2'']"
    by (simp add: no_default_table_run)
  have m: "((''A'', ''stage_2''), [1, 0]) \<in> set (rows (base_matrices no_default_table))"
    by (simp add: no_default_table_run)
  have o: "observations (kept no_default_table) ''A'' ''stage_2'' ''stage_2'' = []"
    by (simp add: observations_def kept_def no_default_table_def)
  note w = base_matrices_shape [of example_table]
  note w' = base_matrices_shape [of no_default_table]
  from w have a: "columns (base_matrices example_table) = [''stage_1'', ''stage_2'']"
    by (simp add: k)
  from w have b: "map fst (rows (base_matrices example_table)) = [(''A'', ''stage_1'')]"
    by (simp add: k)
  from w s have d: "map (\<lambda>r. snd (fst r)) (filter (\<lambda>r. fst (fst r) = ''A'') (rows (base_matrices example_table)))
       = [''stage_1'']"
    by (simp add: k)
  have "[1, 0 :: real] ! 1 = 0"
  proof -
    from w' have "\<forall>seg cur vals j.
        ((seg, cur), vals) \<in> set (rows (base_matrices no_default_table))
        \<and> j < length (columns (base_matrices no_default_table))
        \<and> observations (kept no_default_table) seg cur (columns (base_matrices no_default_table) ! j) = []
        \<longrightarrow> vals ! j = 0" by blast
    then have "((''A'', ''stage_2''), [1, 0]) \<in> set (rows (base_matrices no_default_table))
        \<and> 1 < length (columns (base_matrices no_default_table))
        \<and> observations (kept no_default_table) ''A'' ''stage_2'' (columns (base_matrices no_default_table) ! 1) = []
        \<longrightarrow> [1, 0 :: real] ! 1 = 0" by blast
    with m o show ?thesis by (simp add: c)
  qed
  with a b s d m o show ?thesis by blast
qed

subsection \<open>C8: the check of matrix\_size\<close>

text \<open>
  Claim C8 says that neither function fails for matrix_size 3 or 4. With matrix_size 4
  and a frame of three rows per segment both raise IndexError.
\<close>

theorem valid_size_can_fail:
  "snd (absorbing_state False example_store 0 4) = Inl IndexError
   \<and> snd (absorbing_state True example_store 0 4) = Inl IndexError
   \<and> extract_pds example_frame 4 = Inl IndexError"
proof (intro conjI)
  show "snd (absorbing_state False example_store 0 4) = Inl IndexError"
    by (simp add: absorbing_state_def example_store_def example_frame_def segments_def
        iloc_setitem_def loc_def)
  show "snd (absorbing_state True example_store 0 4) = Inl IndexError"
    by (simp add: absorbing_state_def example_store_def example_frame_def segments_def
        iloc_setitem_def loc_def)
  have s: "segments example_frame = [''A'']" by (simp add: segments_def example_frame_def)
  have l: "loc example_frame ''A'' = [[9/10, 0, 1/10], [1/2, 1/4, 1/4], [1/5, 0, 4/5]]"
    by (simp add: loc_def example_frame_def)
  have c: "cumulative_pds example_frame ''A'' 0 4 = Inl IndexError"
    by (simp add: cumulative_pds_eq l square_def)
  have u: "[0..<(3::nat)] = 0 # [1..<3]" by (simp add: upt_rec)
  show "extract_pds example_frame 4 = Inl IndexError"
    by (simp add: extract_pds_def s u c)
qed

text \<open>
  Claim C8 as amended. For a matrix_size other than 3 and 4 both functions raise the
  ValueError of the size check, and \<^verbatim>\<open>absorbing_state\<close> leaves the store as it was, under
  either pandas setting. For
  matrix_size 3 or 4 neither raises that error; \<^verbatim>\<open>absorbing_state\<close> returns when every
  segment has matrix_size rows and the frame has matrix_size columns, and
  \<^verbatim>\<open>extract_pds\<close> returns when every segment's matrix is matrix_size by matrix_size.
\<close>

theorem matrix_size_check:
  "(matrix_size \<notin> {3, 4} \<longrightarrow>
      absorbing_state copy_on_write \<sigma> r matrix_size
        = (\<sigma>, Inl (ValueError ''Invalid matrix size. Should be 3 or 4 only.''))
    \<and> extract_pds df matrix_size = Inl (ValueError ''Invalid matrix size. Should be 3 or 4 only''))
   \<and> (matrix_size \<in> {3, 4} \<longrightarrow>
      snd (absorbing_state copy_on_write \<sigma> r matrix_size)
        \<noteq> Inl (ValueError ''Invalid matrix size. Should be 3 or 4 only.'')
    \<and> extract_pds df matrix_size \<noteq> Inl (ValueError ''Invalid matrix size. Should be 3 or 4 only'')
    \<and> ((\<forall>seg\<in>set (segments (\<sigma> r)). length (loc (\<sigma> r) seg) = nat matrix_size)
         \<and> length (columns (\<sigma> r)) = nat matrix_size
        \<longrightarrow> snd (absorbing_state copy_on_write \<sigma> r matrix_size) = Inr r)
    \<and> ((\<forall>seg\<in>set (segments df). mat (nat matrix_size) (loc df seg))
        \<longrightarrow> (\<exists>tabs. extract_pds df matrix_size = Inr tabs)))"
proof (intro conjI impI)
  assume "matrix_size \<notin> {3, 4}"
  then show "absorbing_state copy_on_write \<sigma> r matrix_size
        = (\<sigma>, Inl (ValueError ''Invalid matrix size. Should be 3 or 4 only.''))"
    and "extract_pds df matrix_size = Inl (ValueError ''Invalid matrix size. Should be 3 or 4 only'')"
    by (simp_all add: absorbing_state_def extract_pds_def)
next
  assume k: "matrix_size \<in> {3, 4}"
  show "snd (absorbing_state copy_on_write \<sigma> r matrix_size)
        \<noteq> Inl (ValueError ''Invalid matrix size. Should be 3 or 4 only.'')"
    using k by (rule absorbing_state_valid_size_error)
  show "extract_pds df matrix_size \<noteq> Inl (ValueError ''Invalid matrix size. Should be 3 or 4 only'')"
    using k by (rule extract_pds_valid_size_error)
  {
    assume "(\<forall>seg\<in>set (segments (\<sigma> r)). length (loc (\<sigma> r) seg) = nat matrix_size)
         \<and> length (columns (\<sigma> r)) = nat matrix_size"
    then show "snd (absorbing_state copy_on_write \<sigma> r matrix_size) = Inr r"
      using k by (simp add: absorbing_state_succeeds)
  }
  {
    assume m: "\<forall>seg\<in>set (segments df). mat (nat matrix_size) (loc df seg)"
    have "0 < nat matrix_size" using k by auto
    with m have "\<forall>seg\<in>set (segments df). seg_ok df (nat matrix_size) seg"
      by (simp add: mat_seg_ok)
    then show "\<exists>tabs. extract_pds df matrix_size = Inr tabs"
      using k by (simp add: extract_pds_ok)
  }
qed

text \<open>
  The amended C8 at matrix_size 5 and at matrix_size 3, on the concrete frames.
\<close>

theorem matrix_size_check_witness:
  "absorbing_state False example_store 0 5
     = (example_store, Inl (ValueError ''Invalid matrix size. Should be 3 or 4 only.''))
   \<and> extract_pds example_absorbed 5 = Inl (ValueError ''Invalid matrix size. Should be 3 or 4 only'')
   \<and> snd (absorbing_state False example_store 0 3) = Inr 0
   \<and> (\<exists>tabs. extract_pds example_absorbed 3 = Inr tabs)"
proof -
  have h5: "(5::int) \<notin> {3, 4}" by simp
  have h3: "(3::int) \<in> {3, 4}" by simp
  have shape: "(\<forall>seg\<in>set (segments (example_store 0)). length (loc (example_store 0) seg) = nat 3)
         \<and> length (columns (example_store 0)) = nat 3"
    by (simp add: example_store_def example_frame_def segments_def loc_def)
  have m: "\<forall>seg\<in>set (segments example_absorbed). mat (nat 3) (loc example_absorbed seg)"
    using example_mat by (simp add: example_segments)
  from matrix_size_check [of 5 False example_store 0 example_absorbed] h5
  have a: "absorbing_state False example_store 0 5
     = (example_store, Inl (ValueError ''Invalid matrix size. Should be 3 or 4 only.''))
   \<and> extract_pds example_absorbed 5 = Inl (ValueError ''Invalid matrix size. Should be 3 or 4 only'')"
    by blast
  from matrix_size_check [of 3 False example_store 0 example_absorbed] h3 shape m
  have b: "snd (absorbing_state False example_store 0 3) = Inr 0
   \<and> (\<exists>tabs. extract_pds example_absorbed 3 = Inr tabs)"
    by blast
  from a b show ?thesis by blast
qed

subsection \<open>C9: cure\_rate without a recoveries column\<close>

text \<open>
  Claim C9 says that \<^verbatim>\<open>cure_rate\<close> returns a table with a \<^verbatim>\<open>cure_rates\<close> column
  for an input without a \<^verbatim>\<open>recoveries\<close> column. The code never returns on such an
  input: it raises.
\<close>

theorem cure_rate_without_recoveries_raises:
  assumes "''recoveries'' \<notin> set (map fst (categorical df))"
  shows "\<exists>e. cure_rate df = Inl e"
  using assms
  by (cases "grouped_sum df ''cures'' ''cured''")
     (simp_all add: cure_rate_def grouped_sum_missing_column)

text \<open>
  On \<open>example_cures_only\<close>, which has a \<^verbatim>\<open>cures\<close> column and balances, the exception
  is the KeyError of the missing \<^verbatim>\<open>recoveries\<close> column.
\<close>

theorem cure_rate_without_recoveries_raises_witness:
  "''recoveries'' \<notin> set (map fst (categorical example_cures_only))
   \<and> cure_rate example_cures_only = Inl (KeyError ''recoveries'')"
proof -
  have h: "''recoveries'' \<notin> set (map fst (categorical example_cures_only))"
    by (simp add: example_cures_only_def)
  have g: "grouped_sum example_cures_only ''cures'' ''cured'' = Inr 100"
    by (simp add: grouped_sum_def example_cures_only_def)
  from cure_rate_without_recoveries_raises [OF h] obtain e where
    e: "cure_rate example_cures_only = Inl e" ..
  have "cure_rate example_cures_only = Inl (KeyError ''recoveries'')"
    using h by (simp add: cure_rate_def g grouped_sum_missing_column)
  with h show ?thesis by simp
qed

subsection \<open>C10: the matrix of cure\_rate is row-stochastic\<close>

text \<open>
  Claim C10. The matrix that the \<^verbatim>\<open>recoveries\<close> branch of \<^verbatim>\<open>cure_rate\<close> builds
  from the three aggregated balances keeps the unit vectors in rows 0 and 1; when the
  balances are not negative and their sum is positive, row 2 has no negative entry and
  sums to 1, and the matrix is row-stochastic.
\<close>

theorem cr_rr_row_stochastic:
  "cr_rr cured recovered stage_3 ! 0 = [1, 0, 0]
   \<and> cr_rr cured recovered stage_3 ! 1 = [0, 1, 0]
   \<and> length (cr_rr cured recovered stage_3) = 3
   \<and> (0 \<le> cured \<and> 0 \<le> recovered \<and> 0 \<le> stage_3 \<and> 0 < cured + recovered + stage_3 \<longrightarrow>
        list_all (\<lambda>x. 0 \<le> x) (cr_rr cured recovered stage_3 ! 2)
      \<and> sum_list (cr_rr cured recovered stage_3 ! 2) = 1
      \<and> stochastic (cr_rr cured recovered stage_3))"
proof (intro conjI impI)
  assume a: "0 \<le> cured \<and> 0 \<le> recovered \<and> 0 \<le> stage_3 \<and> 0 < cured + recovered + stage_3"
  let ?t = "cured + recovered + stage_3"
  have s: "cured / ?t + recovered / ?t + stage_3 / ?t = 1"
    using a by (simp add: add_divide_distrib [symmetric])
  show "list_all (\<lambda>x. 0 \<le> x) (cr_rr cured recovered stage_3 ! 2)"
    using a by (simp add: cr_rr_eq)
  show "sum_list (cr_rr cured recovered stage_3 ! 2) = 1"
    using s by (simp add: cr_rr_eq add.assoc)
  show "stochastic (cr_rr cured recovered stage_3)"
    using a s by (simp add: cr_rr_eq stochastic_def add.assoc)
qed (simp_all add: cr_rr_eq)

text \<open>
  C10 at the balances 100, 200 and 100.
\<close>

theorem cr_rr_row_stochastic_witness:
  "cr_rr 100 200 100 ! 0 = [1, 0, 0]
   \<and> cr_rr 100 200 100 ! 1 = [0, 1, 0]
   \<and> cr_rr 100 200 100 ! 2 = [1/4, 1/2, 1/4]
   \<and> sum_list (cr_rr 100 200 100 ! 2) = 1
   \<and> stochastic (cr_rr 100 200 100)"
proof -
  have h: "(0::real) \<le> 100 \<and> (0::real) \<le> 200 \<and> (0::real) \<le> 100 \<and> (0::real) < 100 + 200 + 100"
    by simp
  have r: "cr_rr 100 200 100 ! 2 = [1/4, 1/2, 1/4]" by (simp add: cr_rr_eq)
  from cr_rr_row_stochastic [of 100 200 100] h r show ?thesis by blast
qed


end
